theory Spec2Isabelle
  imports Complex_Main
begin

section \<open>Python values and primitives used by palettize.py\<close>

text \<open>
  The module computes RadViz palette coordinates. It is read as Python 3: \<open>/\<close> is true
  division, and a negative float raised to a fractional power is a complex number. Floats
  are idealised as the real numbers (no rounding, no overflow, no infinities), so
  \<open>math.fsum\<close> is the exact sum; only \<open>logistic_map\<close> is modelled a second time on
  doubles, in the last section of the definitions, where rounding decides a property.
  Every exception the code can raise is a value of \<open>error\<close> (OverflowError arises on
  doubles only).
\<close>

datatype error = IndexError | ZeroDivisionError | TypeError | OverflowError

text \<open>
  \<open>f ** factor\<close> on floats yields a float or (Python 3) a complex number, so the
  elements of a scaled point are values of \<open>pynum\<close>.
\<close>

datatype pynum = PyFloat real | PyComplex complex

definition py_index :: "'a list \<Rightarrow> int \<Rightarrow> error + 'a" where
  \<comment> \<open>the subscript \<open>xs[i]\<close>: from the front for \<open>0 \<le> i < len(xs)\<close>, from the end for
      \<open>- len(xs) \<le> i < 0\<close>, and IndexError otherwise\<close>
  "py_index xs i =
     (if 0 \<le> i \<and> i < int (length xs) then Inr (xs ! nat i)
      else if - int (length xs) \<le> i \<and> i < 0 then Inr (xs ! nat (int (length xs) + i))
      else Inl IndexError)"

fun traverse :: "('a \<Rightarrow> error + 'b) \<Rightarrow> 'a list \<Rightarrow> error + 'b list" where
  \<comment> \<open>a list comprehension \<open>[g(x) for x in xs]\<close> whose element expression may raise\<close>
  "traverse g [] = Inr []"
| "traverse g (x # xs) =
     (case g x of Inl e \<Rightarrow> Inl e
      | Inr y \<Rightarrow> (case traverse g xs of Inl e \<Rightarrow> Inl e | Inr ys \<Rightarrow> Inr (y # ys)))"

definition complex_pow :: "real \<Rightarrow> real \<Rightarrow> complex" where
  \<comment> \<open>the polar branch of complex exponentiation, for a negative real base \<open>v\<close> (argument
      \<open>pi\<close>) and a real exponent \<open>w\<close>\<close>
  "complex_pow v w = Complex (\<bar>v\<bar> powr w * cos (pi * w)) (\<bar>v\<bar> powr w * sin (pi * w))"

definition float_pow :: "real \<Rightarrow> real \<Rightarrow> error + pynum" where
  \<comment> \<open>\<open>v ** w\<close> on two floats, in the case order of the interpreter's \<open>float_pow\<close>\<close>
  "float_pow v w =
     (if w = 0 then Inr (PyFloat 1)
      else if v = 0 then (if w < 0 then Inl ZeroDivisionError else Inr (PyFloat 0))
      else if v < 0 then
        (if w \<noteq> of_int \<lfloor>w\<rfloor> then Inr (PyComplex (complex_pow v w))
         else Inr (PyFloat ((if odd \<lfloor>w\<rfloor> then - 1 else 1) * ((- v) powr w))))
      else Inr (PyFloat (v powr w)))"

fun py_mul :: "pynum \<Rightarrow> real \<Rightarrow> pynum" where
  \<comment> \<open>\<open>x * c\<close> for a float \<open>c\<close>\<close>
  "py_mul (PyFloat x) c = PyFloat (x * c)"
| "py_mul (PyComplex z) c = PyComplex (z * of_real c)"

fun fsum :: "pynum list \<Rightarrow> error + real" where
  \<comment> \<open>\<open>math.fsum\<close>: the exact sum of floats; a complex element is a TypeError\<close>
  "fsum [] = Inr 0"
| "fsum (PyFloat x # xs) = (case fsum xs of Inl e \<Rightarrow> Inl e | Inr s \<Rightarrow> Inr (x + s))"
| "fsum (PyComplex z # xs) = Inl TypeError"

section \<open>Vector preprocessing\<close>

definition reverse_normalize :: "real list list \<Rightarrow> real list list" where
  "reverse_normalize points = map (\<lambda>point. map (\<lambda>f. 1 - f) point) points"

definition scale :: "real list list \<Rightarrow> real \<Rightarrow> error + pynum list list" where
  "scale points factor = traverse (\<lambda>point. traverse (\<lambda>f. float_pow f factor) point) points"

definition logistic_remap :: "real \<Rightarrow> real \<Rightarrow> real" where
  \<comment> \<open>the element expression of \<open>logistic_map\<close>, with \<open>p\<close> and \<open>q\<close> as computed before its loop\<close>
  "logistic_remap A v =
     (let p = 1 / (1 + exp (A / 2)); q = 1 / (1 + exp (- A / 2))
      in ((1 / (1 + exp (- A * (v - 0.5)))) - p) / (q - p))"

definition logistic_map :: "real list list \<Rightarrow> real \<Rightarrow> real list list" where
  "logistic_map points A = map (\<lambda>vec. map (\<lambda>v. logistic_remap A v) vec) points"

section \<open>Axes and projection\<close>

definition axes :: "nat \<Rightarrow> (real \<times> real) list" where
  \<comment> \<open>\<open>S\<close>: the pair \<open>[cos t, sin t]\<close> for \<open>t = 2 pi (i / m)\<close>, \<open>i\<close> in \<open>range(m)\<close>\<close>
  "axes m = map (\<lambda>t. (cos t, sin t)) (map (\<lambda>i. 2 * pi * (real i / real m)) [0..<m])"

definition weighted :: "pynum list \<Rightarrow> real list \<Rightarrow> error + pynum list" where
  \<comment> \<open>\<open>[f[i] * c for i, c in enumerate(cs)]\<close>\<close>
  "weighted f cs =
     traverse (\<lambda>(i, c). case py_index f (int i) of Inl e \<Rightarrow> Inl e | Inr x \<Rightarrow> Inr (py_mul x c))
       (enumerate 0 cs)"

definition weighted_fsum :: "pynum list \<Rightarrow> real list \<Rightarrow> error + real" where
  "weighted_fsum f cs = (case weighted f cs of Inl e \<Rightarrow> Inl e | Inr ps \<Rightarrow> fsum ps)"

definition radviz_uv :: "(real \<times> real) list \<Rightarrow> pynum list \<Rightarrow> error + real \<times> real" where
  \<comment> \<open>\<open>(u, v)\<close> of palettize and palettize_logistic: normalised by the coordinate sum\<close>
  "radviz_uv S f =
     (case fsum f of Inl e \<Rightarrow> Inl e
      | Inr s \<Rightarrow>
          if s > 0 then
            (case weighted_fsum f (map fst S) of Inl e \<Rightarrow> Inl e
             | Inr a \<Rightarrow>
                 (case weighted_fsum f (map snd S) of Inl e \<Rightarrow> Inl e
                  | Inr b \<Rightarrow> Inr (a / s, b / s)))
          else Inr (0, 0))"

definition polar_uv :: "(real \<times> real) list \<Rightarrow> pynum list \<Rightarrow> error + real \<times> real" where
  \<comment> \<open>\<open>(u, v)\<close> of palettize_polar: the weighted sums, not normalised\<close>
  "polar_uv S f =
     (case weighted_fsum f (map fst S) of Inl e \<Rightarrow> Inl e
      | Inr a \<Rightarrow>
          (case weighted_fsum f (map snd S) of Inl e \<Rightarrow> Inl e
           | Inr b \<Rightarrow> Inr (a, b)))"

section \<open>The walk over the layers\<close>

text \<open>
  The three palettize functions run the same two nested loops over the state
  \<open>palette_coords, wl, wc, count\<close>; they differ in the projection only, which is the
  parameter \<open>proj\<close> here. \<open>use_wl\<close> is the condition
  \<open>n_layers == 0 or n_layers_orig <= n_layers\<close>, and the threshold \<open>points_per_layer\<close>
  is \<open>None\<close> for \<open>float('inf')\<close>.
\<close>

record walk_state =
  palette_coords :: "int \<rightharpoonup> real list"
  wl :: real
  wc :: real
  count :: nat

definition points_per_layer :: "nat \<Rightarrow> int \<Rightarrow> real option" where
  "points_per_layer n n_layers =
     (if n_layers > 0 then Some (real n / real_of_int n_layers) else None)"

definition reaches :: "nat \<Rightarrow> real option \<Rightarrow> bool" where
  \<comment> \<open>\<open>count >= points_per_layer\<close>\<close>
  "reaches c ppl = (case ppl of None \<Rightarrow> False | Some t \<Rightarrow> real c \<ge> t)"

definition point_step ::
  "('a list \<Rightarrow> error + real \<times> real) \<Rightarrow> 'a list list \<Rightarrow> bool \<Rightarrow> real option \<Rightarrow> real \<Rightarrow>
   walk_state \<Rightarrow> int \<Rightarrow> error + walk_state" where
  "point_step proj points' use_wl ppl zgap st idx =
     (case py_index points' idx of Inl e \<Rightarrow> Inl e
      | Inr f \<Rightarrow>
          (case proj f of Inl e \<Rightarrow> Inl e
           | Inr (u, v) \<Rightarrow>
               let st1 = st\<lparr>palette_coords :=
                             (palette_coords st)(idx \<mapsto> [u, v, if use_wl then wl st else wc st]),
                           count := count st + 1\<rparr>
               in if reaches (count st1) ppl
                  then Inr (st1\<lparr>count := 0, wc := wc st1 - zgap\<rparr>)
                  else Inr st1))"

fun walk_layer ::
  "('a list \<Rightarrow> error + real \<times> real) \<Rightarrow> 'a list list \<Rightarrow> bool \<Rightarrow> real option \<Rightarrow> real \<Rightarrow>
   walk_state \<Rightarrow> int list \<Rightarrow> error + walk_state" where
  "walk_layer proj points' use_wl ppl zgap st [] = Inr st"
| "walk_layer proj points' use_wl ppl zgap st (idx # layer) =
     (case point_step proj points' use_wl ppl zgap st idx of Inl e \<Rightarrow> Inl e
      | Inr st' \<Rightarrow> walk_layer proj points' use_wl ppl zgap st' layer)"

fun walk_layers ::
  "('a list \<Rightarrow> error + real \<times> real) \<Rightarrow> 'a list list \<Rightarrow> bool \<Rightarrow> real option \<Rightarrow> real \<Rightarrow>
   walk_state \<Rightarrow> int list list \<Rightarrow> error + walk_state" where
  "walk_layers proj points' use_wl ppl zgap st [] = Inr st"
| "walk_layers proj points' use_wl ppl zgap st (layer # layers) =
     (case walk_layer proj points' use_wl ppl zgap st layer of Inl e \<Rightarrow> Inl e
      | Inr st' \<Rightarrow> walk_layers proj points' use_wl ppl zgap (st'\<lparr>wl := wl st' - zgap\<rparr>) layers)"

definition init_state :: walk_state where
  \<comment> \<open>\<open>palette_coords = {}\<close> and \<open>wl, wc, count = 0.0, 0.0, 0\<close>\<close>
  "init_state = \<lparr>palette_coords = Map.empty, wl = 0, wc = 0, count = 0\<rparr>"

definition run_walk ::
  "('a list \<Rightarrow> error + real \<times> real) \<Rightarrow> 'a list list \<Rightarrow> int list list \<Rightarrow> int \<Rightarrow> real \<Rightarrow>
   error + (int \<rightharpoonup> real list)" where
  \<comment> \<open>from \<open>n_layers_orig = len(layers)\<close> to \<open>return palette_coords\<close>\<close>
  "run_walk proj points' layers n_layers zgap =
     (let n_layers_orig = length layers;
          ppl = points_per_layer (length points') n_layers
      in (case walk_layers proj points' (n_layers = 0 \<or> int n_layers_orig \<le> n_layers) ppl
                  zgap init_state layers of
            Inl e \<Rightarrow> Inl e
          | Inr st \<Rightarrow> Inr (palette_coords st)))"

definition tick :: "real option \<Rightarrow> real \<Rightarrow> real \<times> nat \<Rightarrow> real \<times> nat" where
  \<comment> \<open>what one processed point does to \<open>(wc, count)\<close>: the last three lines of the inner loop\<close>
  "tick ppl zgap = (\<lambda>(w, c). if reaches (c + 1) ppl then (w - zgap, 0) else (w, c + 1))"

section \<open>The three variants\<close>

definition palettize ::
  "real list list \<Rightarrow> int list list \<Rightarrow> int \<Rightarrow> real \<Rightarrow> error + (int \<rightharpoonup> real list)" where
  "palettize points layers n_layers zgap =
     (case py_index points 0 of Inl e \<Rightarrow> Inl e
      | Inr p0 \<Rightarrow>
          let m = length p0; factor = (if m > 3 then 2 else 1)
          in (case scale points factor of Inl e \<Rightarrow> Inl e
              | Inr points' \<Rightarrow> run_walk (radviz_uv (axes m)) points' layers n_layers zgap))"

definition palettize_polar ::
  "real list list \<Rightarrow> int list list \<Rightarrow> int \<Rightarrow> real \<Rightarrow> error + (int \<rightharpoonup> real list)" where
  "palettize_polar points layers n_layers zgap =
     (case py_index points 0 of Inl e \<Rightarrow> Inl e
      | Inr p0 \<Rightarrow>
          let m = length p0; points' = reverse_normalize points;
              factor = (if m > 3 then 3 else 2)
          in (case scale points' factor of Inl e \<Rightarrow> Inl e
              | Inr points' \<Rightarrow> run_walk (polar_uv (axes m)) points' layers n_layers zgap))"

definition palettize_logistic ::
  "real list list \<Rightarrow> int list list \<Rightarrow> int \<Rightarrow> real \<Rightarrow> error + (int \<rightharpoonup> real list)" where
  "palettize_logistic points layers n_layers zgap =
     (let points' = map (map PyFloat) (logistic_map points 15)
      in (case py_index points' 0 of Inl e \<Rightarrow> Inl e
          | Inr p0 \<Rightarrow>
              let m = length p0
              in run_walk (radviz_uv (axes m)) points' layers n_layers zgap))"

section \<open>The depth assigner as specified\<close>

text \<open>
  The two depth tracks in the words of the design, to compare the walk with. \<open>wc\<close> starts
  at 0 and goes down by the gap whenever the running counter, incremented for each
  processed point, reaches the threshold (\<open>None\<close> is the infinite threshold, never
  reached); the counter is then reset. \<open>wc_track_spec ppl zgap n\<close> is the pair
  \<open>(wc, count)\<close> once \<open>n\<close> points have been processed.
\<close>

fun wc_track_spec :: "real option \<Rightarrow> real \<Rightarrow> nat \<Rightarrow> real \<times> nat" where
  "wc_track_spec ppl zgap 0 = (0, 0)"
| "wc_track_spec ppl zgap (Suc n) =
     (case wc_track_spec ppl zgap n of
        (w, c) \<Rightarrow>
          (case ppl of None \<Rightarrow> (w, Suc c)
           | Some t \<Rightarrow> if t \<le> real (Suc c) then (w - zgap, 0) else (w, Suc c)))"

definition last_at :: "int list list \<Rightarrow> nat \<Rightarrow> nat \<Rightarrow> int \<Rightarrow> bool" where
  \<comment> \<open>position \<open>k\<close> of layer \<open>j\<close> is the last place in walk order where \<open>idx\<close> is listed\<close>
  "last_at layers j k idx =
     (j < length layers \<and> k < length (layers ! j) \<and> layers ! j ! k = idx \<and>
      idx \<notin> set (drop (Suc k) (layers ! j)) \<and>
      (\<forall>l \<in> set (drop (Suc j) layers). idx \<notin> set l))"

definition depth_spec :: "nat \<Rightarrow> int list list \<Rightarrow> int \<Rightarrow> real \<Rightarrow> nat \<Rightarrow> nat \<Rightarrow> real" where
  \<comment> \<open>the depth of the point at position \<open>k\<close> of layer \<open>j\<close>: the layer-indexed track when
      \<open>n_layers\<close> is 0 or not below the number of layers, the count-indexed track otherwise\<close>
  "depth_spec n layers n_layers zgap j k =
     (if n_layers = 0 \<or> int (length layers) \<le> n_layers then - real j * zgap
      else fst (wc_track_spec (points_per_layer n n_layers) zgap (length (concat (take j layers)) + k)))"

section \<open>The point collection as objects in a store\<close>

text \<open>
  Python lists are mutable objects, and \<open>copy.copy\<close> copies the outer list only, so
  whether a call leaves the caller's lists alone is a property of the store. A store maps
  addresses to list objects; the addresses below \<open>free\<close> are allocated. A list holds
  references to other lists (\<open>Refs\<close>), floats (\<open>Floats\<close>), or the results of \<open>**\<close>
  (\<open>Nums\<close>); the three preprocessing functions are modelled on their documented input,
  a list of lists of floats, and any other shape is a TypeError here. The store-passing
  functions below follow the source statement by statement; they return the store they
  leave behind, together with the result or the error. The loops of the palettize
  functions only read the preprocessed collection (\<open>points_[idx]\<close>, \<open>f[i]\<close>,
  \<open>math.fsum(f)\<close>) and write into the new dictionary, so they are run on the value that
  the store holds for that collection.
\<close>

datatype obj = Refs "nat list" | Floats "real list" | Nums "pynum list"

record store =
  objs :: "nat \<Rightarrow> obj"
  free :: nat

definition alloc :: "store \<Rightarrow> obj \<Rightarrow> store \<times> nat" where
  \<comment> \<open>a new list object, at the next free address\<close>
  "alloc h x = (h\<lparr>objs := (objs h)(free h := x), free := Suc (free h)\<rparr>, free h)"

definition list_append :: "store \<Rightarrow> nat \<Rightarrow> nat \<Rightarrow> error + store" where
  \<comment> \<open>\<open>xs.append(x)\<close> for a reference \<open>x\<close>: the one operation here that writes into an
      existing list\<close>
  "list_append h a x =
     (case objs h a of
        Refs rs \<Rightarrow> Inr (h\<lparr>objs := (objs h)(a := Refs (rs @ [x]))\<rparr>)
      | Floats fs \<Rightarrow> Inl TypeError
      | Nums ns \<Rightarrow> Inl TypeError)"

definition copy_st :: "store \<Rightarrow> nat \<Rightarrow> store \<times> nat" where
  \<comment> \<open>\<open>copy.copy(points)\<close>: a new outer list with the same elements\<close>
  "copy_st h a = alloc h (objs h a)"

partial_function (option) append_points ::
  "(real list \<Rightarrow> error + obj) \<Rightarrow> nat \<Rightarrow> nat \<Rightarrow> nat \<Rightarrow> store \<Rightarrow> (store \<times> (error + unit)) option"
  where
  "append_points g points acc i h =
     (case objs h points of
        Refs ps \<Rightarrow>
          if i < length ps then
            (case objs h (ps ! i) of
               Floats p \<Rightarrow>
                 (case g p of
                    Inl e \<Rightarrow> Some (h, Inl e)
                  | Inr new \<Rightarrow>
                      (case alloc h new of
                         (h1, a) \<Rightarrow>
                           (case list_append h1 acc a of
                              Inl e \<Rightarrow> Some (h1, Inl e)
                            | Inr h2 \<Rightarrow> append_points g points acc (Suc i) h2)))
             | Refs rs \<Rightarrow> Some (h, Inl TypeError)
             | Nums ns \<Rightarrow> Some (h, Inl TypeError))
          else Some (h, Inr ())
      | Floats fs \<Rightarrow> Some (h, Inl TypeError)
      | Nums ns \<Rightarrow> Some (h, Inl TypeError))"

definition build_points ::
  "(real list \<Rightarrow> error + obj) \<Rightarrow> store \<Rightarrow> nat \<Rightarrow> (store \<times> (error + nat)) option" where
  \<comment> \<open>\<open>points_ = []\<close>, the loop, \<open>return points_\<close>\<close>
  "build_points g h points =
     (case alloc h (Refs []) of
        (h1, acc) \<Rightarrow>
          (case append_points g points acc 0 h1 of
             None \<Rightarrow> None
           | Some (h2, Inl e) \<Rightarrow> Some (h2, Inl e)
           | Some (h2, Inr u) \<Rightarrow> Some (h2, Inr acc)))"

definition reverse_normalize_st :: "store \<Rightarrow> nat \<Rightarrow> (store \<times> (error + nat)) option" where
  "reverse_normalize_st h points =
     build_points (\<lambda>point. Inr (Floats (map (\<lambda>f. 1 - f) point))) h points"

definition scale_st :: "store \<Rightarrow> nat \<Rightarrow> real \<Rightarrow> (store \<times> (error + nat)) option" where
  "scale_st h points factor =
     build_points
       (\<lambda>point. case traverse (\<lambda>f. float_pow f factor) point of
                   Inl e \<Rightarrow> Inl e | Inr ns \<Rightarrow> Inr (Nums ns)) h points"

definition logistic_map_st :: "store \<Rightarrow> nat \<Rightarrow> real \<Rightarrow> (store \<times> (error + nat)) option" where
  "logistic_map_st h points A =
     build_points (\<lambda>vec. Inr (Floats (map (\<lambda>v. logistic_remap A v) vec))) h points"

definition first_len :: "store \<Rightarrow> nat \<Rightarrow> error + nat" where
  \<comment> \<open>\<open>len(points[0])\<close>\<close>
  "first_len h a =
     (case objs h a of
        Refs ps \<Rightarrow>
          (case ps of
             [] \<Rightarrow> Inl IndexError
           | p # qs \<Rightarrow>
               (case objs h p of
                  Refs rs \<Rightarrow> Inr (length rs)
                | Floats fs \<Rightarrow> Inr (length fs)
                | Nums ns \<Rightarrow> Inr (length ns)))
      | Floats fs \<Rightarrow> (case fs of [] \<Rightarrow> Inl IndexError | f # gs \<Rightarrow> Inl TypeError)
      | Nums ns \<Rightarrow> (case ns of [] \<Rightarrow> Inl IndexError | n # ms \<Rightarrow> Inl TypeError))"

definition nums_at :: "store \<Rightarrow> nat \<Rightarrow> error + pynum list list" where
  \<comment> \<open>the value of a collection built by one of the three functions above, as the walk
      reads it: a list of lists of numbers\<close>
  "nums_at h a =
     (case objs h a of
        Refs ps \<Rightarrow>
          traverse (\<lambda>p. case objs h p of
                          Floats fs \<Rightarrow> Inr (map PyFloat fs)
                        | Nums ns \<Rightarrow> Inr ns
                        | Refs rs \<Rightarrow> Inl TypeError) ps
      | Floats fs \<Rightarrow> Inl TypeError
      | Nums ns \<Rightarrow> Inl TypeError)"

definition walk_st ::
  "((real \<times> real) list \<Rightarrow> pynum list \<Rightarrow> error + real \<times> real) \<Rightarrow> store \<Rightarrow> nat \<Rightarrow> nat \<Rightarrow>
   int list list \<Rightarrow> int \<Rightarrow> real \<Rightarrow> error + (int \<rightharpoonup> real list)" where
  \<comment> \<open>the axes and the two loops, which read the collection and write the new dictionary
      only\<close>
  "walk_st uv h a m layers n_layers zgap =
     (case nums_at h a of
        Inl e \<Rightarrow> Inl e
      | Inr pts \<Rightarrow> run_walk (uv (axes m)) pts layers n_layers zgap)"

definition palettize_st ::
  "store \<Rightarrow> nat \<Rightarrow> int list list \<Rightarrow> int \<Rightarrow> real \<Rightarrow>
   (store \<times> (error + (int \<rightharpoonup> real list))) option" where
  "palettize_st h points layers n_layers zgap =
     (case copy_st h points of
        (h1, copied) \<Rightarrow>
          (case first_len h1 copied of
             Inl e \<Rightarrow> Some (h1, Inl e)
           | Inr m \<Rightarrow>
               (case scale_st h1 copied (if m > 3 then 2 else 1) of
                  None \<Rightarrow> None
                | Some (h2, Inl e) \<Rightarrow> Some (h2, Inl e)
                | Some (h2, Inr scaled) \<Rightarrow>
                    Some (h2, walk_st radviz_uv h2 scaled m layers n_layers zgap))))"

definition palettize_polar_st ::
  "store \<Rightarrow> nat \<Rightarrow> int list list \<Rightarrow> int \<Rightarrow> real \<Rightarrow>
   (store \<times> (error + (int \<rightharpoonup> real list))) option" where
  "palettize_polar_st h points layers n_layers zgap =
     (case first_len h points of
        Inl e \<Rightarrow> Some (h, Inl e)
      | Inr m \<Rightarrow>
          (case copy_st h points of
             (h1, copied) \<Rightarrow>
               (case reverse_normalize_st h1 copied of
                  None \<Rightarrow> None
                | Some (h2, Inl e) \<Rightarrow> Some (h2, Inl e)
                | Some (h2, Inr reversed) \<Rightarrow>
                    (case scale_st h2 reversed (if m > 3 then 3 else 2) of
                       None \<Rightarrow> None
                     | Some (h3, Inl e) \<Rightarrow> Some (h3, Inl e)
                     | Some (h3, Inr scaled) \<Rightarrow>
                         Some (h3, walk_st polar_uv h3 scaled m layers n_layers zgap)))))"

definition palettize_logistic_st ::
  "store \<Rightarrow> nat \<Rightarrow> int list list \<Rightarrow> int \<Rightarrow> real \<Rightarrow>
   (store \<times> (error + (int \<rightharpoonup> real list))) option" where
  "palettize_logistic_st h points layers n_layers zgap =
     (case copy_st h points of
        (h1, copied) \<Rightarrow>
          (case logistic_map_st h1 copied 15 of
             None \<Rightarrow> None
           | Some (h2, Inl e) \<Rightarrow> Some (h2, Inl e)
           | Some (h2, Inr mapped) \<Rightarrow>
               (case first_len h2 mapped of
                  Inl e \<Rightarrow> Some (h2, Inl e)
                | Inr m \<Rightarrow>
                    Some (h2, walk_st radviz_uv h2 mapped m layers n_layers zgap))))"

definition points_at :: "store \<Rightarrow> nat \<Rightarrow> real list list \<Rightarrow> bool" where
  \<comment> \<open>the allocated list at \<open>a\<close> is a point collection with the value \<open>pts\<close>: a list of
      references to allocated lists of floats\<close>
  "points_at h a pts =
     (a < free h \<and>
      (case objs h a of
         Refs ps \<Rightarrow> list_all2 (\<lambda>p pt. p < free h \<and> objs h p = Floats pt) ps pts
       | Floats fs \<Rightarrow> False
       | Nums ns \<Rightarrow> False))"

section \<open>The logistic remap on doubles\<close>

text \<open>
  Whether the remap separates two inputs depends on rounding, so \<open>logistic_map\<close> is also
  modelled on IEEE 754 doubles: a value is a finite real, an infinity or a NaN; every
  operation is the exact one rounded to the nearest double, ties to even, and goes to an
  infinity beyond the largest double. Python raises ZeroDivisionError for a zero divisor
  and OverflowError where \<open>math.exp\<close> overflows; underflow is silent. \<open>math.exp\<close> is taken
  to be correctly rounded, and the sign of zero is not kept (no comparison sees it).
\<close>

datatype fl = Fin real | PInf | NInf | NaN

definition round_even :: "real \<Rightarrow> int" where
  "round_even r =
     (let f = \<lfloor>r\<rfloor>
      in if r - of_int f < 1 / 2 then f
         else if 1 / 2 < r - of_int f then f + 1
         else if even f then f else f + 1)"

definition round_double :: "real \<Rightarrow> real" where
  \<comment> \<open>53 significant bits, the exponent not below that of the subnormal numbers\<close>
  "round_double x =
     (if x = 0 then 0
      else let e = max \<lfloor>log 2 \<bar>x\<bar>\<rfloor> (- 1022); u = 2 powr (of_int e - 52)
           in u * of_int (round_even (x / u)))"

definition fin :: "real \<Rightarrow> fl" where
  \<comment> \<open>the double for an exact finite result\<close>
  "fin x =
     (let r = round_double x
      in if 2 ^ 1024 \<le> r then PInf else if r \<le> - (2 ^ 1024) then NInf else Fin r)"

definition inf_of :: "bool \<Rightarrow> fl" where
  "inf_of positive = (if positive then PInf else NInf)"

fun fneg :: "fl \<Rightarrow> fl" where
  "fneg (Fin x) = Fin (- x)"
| "fneg PInf = NInf"
| "fneg NInf = PInf"
| "fneg NaN = NaN"

fun fadd :: "fl \<Rightarrow> fl \<Rightarrow> fl" where
  "fadd (Fin a) (Fin b) = fin (a + b)"
| "fadd NaN y = NaN"
| "fadd x NaN = NaN"
| "fadd PInf NInf = NaN"
| "fadd NInf PInf = NaN"
| "fadd PInf y = PInf"
| "fadd x PInf = PInf"
| "fadd NInf y = NInf"
| "fadd x NInf = NInf"

definition fsub :: "fl \<Rightarrow> fl \<Rightarrow> fl" where
  "fsub x y = fadd x (fneg y)"

fun fmul :: "fl \<Rightarrow> fl \<Rightarrow> fl" where
  "fmul (Fin a) (Fin b) = fin (a * b)"
| "fmul NaN y = NaN"
| "fmul x NaN = NaN"
| "fmul (Fin a) PInf = (if a = 0 then NaN else inf_of (0 < a))"
| "fmul (Fin a) NInf = (if a = 0 then NaN else inf_of (a < 0))"
| "fmul PInf (Fin b) = (if b = 0 then NaN else inf_of (0 < b))"
| "fmul NInf (Fin b) = (if b = 0 then NaN else inf_of (b < 0))"
| "fmul PInf PInf = PInf"
| "fmul NInf NInf = PInf"
| "fmul PInf NInf = NInf"
| "fmul NInf PInf = NInf"

fun fdiv :: "fl \<Rightarrow> fl \<Rightarrow> error + fl" where
  "fdiv (Fin a) (Fin b) = (if b = 0 then Inl ZeroDivisionError else Inr (fin (a / b)))"
| "fdiv PInf (Fin b) = (if b = 0 then Inl ZeroDivisionError else Inr (inf_of (0 < b)))"
| "fdiv NInf (Fin b) = (if b = 0 then Inl ZeroDivisionError else Inr (inf_of (b < 0)))"
| "fdiv NaN (Fin b) = (if b = 0 then Inl ZeroDivisionError else Inr NaN)"
| "fdiv x NaN = Inr NaN"
| "fdiv NaN y = Inr NaN"
| "fdiv (Fin a) y = Inr (Fin 0)"
| "fdiv x y = Inr NaN"

fun fexp :: "fl \<Rightarrow> error + fl" where
  \<comment> \<open>\<open>math.exp\<close>\<close>
  "fexp (Fin x) =
     (if 2 ^ 1024 \<le> round_double (exp x) then Inl OverflowError
      else Inr (Fin (round_double (exp x))))"
| "fexp PInf = Inr PInf"
| "fexp NInf = Inr (Fin 0)"
| "fexp NaN = Inr NaN"

definition recip_one_plus_exp :: "fl \<Rightarrow> error + fl" where
  \<comment> \<open>\<open>1.0 / (1.0 + math.exp(x))\<close>, which the source writes three times\<close>
  "recip_one_plus_exp x =
     (case fexp x of Inl e \<Rightarrow> Inl e | Inr y \<Rightarrow> fdiv (Fin 1) (fadd (Fin 1) y))"

definition logistic_pq :: "real \<Rightarrow> error + fl \<times> fl" where
  \<comment> \<open>\<open>p\<close> and \<open>q\<close>, from \<open>A/2\<close> and \<open>-A/2\<close>\<close>
  "logistic_pq A =
     (case fdiv (Fin A) (Fin 2) of
        Inl e \<Rightarrow> Inl e
      | Inr h \<Rightarrow>
          (case recip_one_plus_exp h of
             Inl e \<Rightarrow> Inl e
           | Inr p \<Rightarrow>
               (case fdiv (fneg (Fin A)) (Fin 2) of
                  Inl e \<Rightarrow> Inl e
                | Inr h' \<Rightarrow>
                    (case recip_one_plus_exp h' of
                       Inl e \<Rightarrow> Inl e
                     | Inr q \<Rightarrow> Inr (p, q)))))"

definition logistic_remap_float :: "real \<Rightarrow> fl \<Rightarrow> fl \<Rightarrow> real \<Rightarrow> error + fl" where
  \<comment> \<open>the element expression of \<open>logistic_map\<close> on doubles, for a finite \<open>v\<close>\<close>
  "logistic_remap_float A p q v =
     (case recip_one_plus_exp (fmul (fneg (Fin A)) (fsub (Fin v) (Fin (1 / 2)))) of
        Inl e \<Rightarrow> Inl e
      | Inr s \<Rightarrow> fdiv (fsub s p) (fsub q p))"

definition logistic_map_float :: "real list list \<Rightarrow> real \<Rightarrow> error + fl list list" where
  "logistic_map_float points A =
     (case logistic_pq A of
        Inl e \<Rightarrow> Inl e
      | Inr (p, q) \<Rightarrow>
          traverse (\<lambda>vec. traverse (\<lambda>v. logistic_remap_float A p q v) vec) points)"

definition sigma :: "real \<Rightarrow> real" where
  \<comment> \<open>the standard logistic function of the design\<close>
  "sigma x = 1 / (1 + exp (- x))"

section \<open>The logistic remap\<close>

lemma one_div_less: "0 < a \<Longrightarrow> a < b \<Longrightarrow> 1 / b < 1 / (a::real)"
  by (simp add: frac_less2)

lemma logistic_denominator_pos: "0 < 1 / (1 + exp (- (15::real) / 2)) - 1 / (1 + exp (15 / 2))"
proof -
  have "exp (- (15::real) / 2) < exp (15 / 2)" by simp
  then have "1 + exp (- (15::real) / 2) < 1 + exp (15 / 2)" by simp
  moreover have "0 < 1 + exp (- (15::real) / 2)" by (simp add: add_pos_pos)
  ultimately have "1 / (1 + exp (15 / 2)) < 1 / (1 + exp (- (15::real) / 2))"
    by (intro one_div_less)
  then show ?thesis by simp
qed

lemma sigmoid_strict_mono:
  assumes "(x::real) < y"
  shows "1 / (1 + exp (- 15 * (x - 0.5))) < 1 / (1 + exp (- 15 * (y - 0.5)))"
proof -
  have "exp (- 15 * (y - 0.5)) < exp (- 15 * (x - 0.5))" using assms by simp
  then have "1 + exp (- 15 * (y - 0.5)) < 1 + exp (- 15 * (x - 0.5))" by simp
  moreover have "0 < 1 + exp (- 15 * (y - 0.5))" by (simp add: add_pos_pos)
  ultimately show ?thesis
    by (intro one_div_less)
qed

lemma logistic_remap_less:
  assumes "v1 < v2"
  shows "logistic_remap 15 v1 < logistic_remap 15 v2"
proof -
  have "1 / (1 + exp (- 15 * (v1 - 0.5))) - 1 / (1 + exp (15 / 2))
      < 1 / (1 + exp (- 15 * (v2 - 0.5))) - 1 / (1 + exp (15 / 2))"
    using sigmoid_strict_mono [OF assms] by simp
  then show ?thesis
    unfolding logistic_remap_def Let_def
    by (rule divide_strict_right_mono) (rule logistic_denominator_pos)
qed

lemma logistic_remap_zero: "logistic_remap 15 0 = 0"
  by (simp add: logistic_remap_def Let_def)

lemma logistic_remap_sigma:
  "logistic_remap A v = (sigma (A * (v - 0.5)) - sigma (- A / 2)) / (sigma (A / 2) - sigma (- A / 2))"
  by (simp add: logistic_remap_def sigma_def Let_def)

text \<open>
  C6, amended. In exact real arithmetic the remap of \<open>logistic_map\<close> with \<open>A = 15\<close> is
  \<open>(sigma (A (v - 0.5)) - p) / (q - p)\<close> for \<open>p = sigma (- A / 2)\<close> and
  \<open>q = sigma (A / 2)\<close>, it is strictly increasing in \<open>v\<close>, and it maps \<open>0.5\<close> to
  \<open>(0.5 - p) / (q - p)\<close>.
\<close>

theorem logistic_remap_strictly_increasing:
  "logistic_map points 15 =
     map (map (\<lambda>v. (sigma (15 * (v - 0.5)) - sigma (- 15 / 2)) /
                      (sigma (15 / 2) - sigma (- 15 / 2)))) points \<and>
   (v1 < v2 \<longrightarrow> logistic_remap 15 v1 < logistic_remap 15 v2) \<and>
   logistic_remap 15 0.5 = (0.5 - sigma (- 15 / 2)) / (sigma (15 / 2) - sigma (- 15 / 2))"
proof (intro conjI)
  show "logistic_map points 15 =
     map (map (\<lambda>v. (sigma (15 * (v - 0.5)) - sigma (- 15 / 2)) /
                      (sigma (15 / 2) - sigma (- 15 / 2)))) points"
    unfolding logistic_map_def logistic_remap_sigma ..
  show "v1 < v2 \<longrightarrow> logistic_remap 15 v1 < logistic_remap 15 v2"
    by (simp add: logistic_remap_less)
  show "logistic_remap 15 0.5 = (0.5 - sigma (- 15 / 2)) / (sigma (15 / 2) - sigma (- 15 / 2))"
    by (simp add: logistic_remap_sigma sigma_def)
qed

theorem logistic_remap_strictly_increasing_witness:
  "(0::real) < 1 \<and> logistic_remap 15 0 < logistic_remap 15 1"
  using logistic_remap_strictly_increasing [of "[]" 0 1] by simp

section \<open>Scaling and sums on floats\<close>

lemma float_pow_nat: "0 < n \<Longrightarrow> float_pow v (real n) = Inr (PyFloat (v ^ n))"
proof -
  assume n: "0 < n"
  have fl: "\<lfloor>real n\<rfloor> = int n" by simp
  show ?thesis
  proof (cases "v = 0")
    case True
    then show ?thesis using n by (simp add: float_pow_def)
  next
    case False
    show ?thesis
    proof (cases "v < 0")
      case True
      then have "(- v) powr real n = (- v) ^ n" by (simp add: powr_realpow)
      moreover have "(if odd n then - 1 else 1) * (- v) ^ n = v ^ n" by (simp add: power_minus_odd)
      ultimately show ?thesis using n True by (simp add: float_pow_def)
    next
      case False
      with \<open>v \<noteq> 0\<close> have "0 < v" by simp
      then have "v powr real n = v ^ n" by (simp add: powr_realpow)
      then show ?thesis using n \<open>0 < v\<close> by (simp add: float_pow_def)
    qed
  qed
qed

lemma traverse_map: "(\<And>x. x \<in> set xs \<Longrightarrow> g x = Inr (h x)) \<Longrightarrow> traverse g xs = Inr (map h xs)"
  by (induction xs) simp_all

lemma traverse_length: "traverse g xs = Inr ys \<Longrightarrow> length ys = length xs"
  by (induction xs arbitrary: ys) (auto split: sum.splits)


lemma scale_nat: "0 < n \<Longrightarrow> scale points (real n) = Inr (map (map (\<lambda>f. PyFloat (f ^ n))) points)"
  unfolding scale_def by (intro traverse_map) (simp add: float_pow_nat)

lemma fsum_floats: "fsum (map PyFloat xs) = Inr (sum_list xs)"
  by (induction xs) simp_all

lemma weighted_floats_aux:
  "k + length cs \<le> length g \<Longrightarrow>
   traverse (\<lambda>(i, c). case py_index (map PyFloat g) (int i) of Inl e \<Rightarrow> Inl e | Inr x \<Rightarrow> Inr (py_mul x c))
     (enumerate k cs) = Inr (map (\<lambda>(i, c). PyFloat (g ! i * c)) (enumerate k cs))"
  by (intro traverse_map) (auto simp: py_index_def in_set_enumerate_eq)

lemma weighted_fsum_floats:
  assumes "length cs \<le> length g"
  shows "weighted_fsum (map PyFloat g) cs = Inr (\<Sum>i<length cs. g ! i * cs ! i)"
proof -
  have "weighted (map PyFloat g) cs = Inr (map (\<lambda>(i, c). PyFloat (g ! i * c)) (enumerate 0 cs))"
    unfolding weighted_def using assms weighted_floats_aux [of 0 cs g] by simp
  moreover have "map (\<lambda>(i, c). PyFloat (g ! i * c)) (enumerate 0 cs)
               = map PyFloat (map (\<lambda>i. g ! i * cs ! i) [0..<length cs])"
    by (auto simp: enumerate_eq_zip intro!: nth_equalityI)
  ultimately have "weighted_fsum (map PyFloat g) cs
      = fsum (map PyFloat (map (\<lambda>i. g ! i * cs ! i) [0..<length cs]))"
    by (simp add: weighted_fsum_def del: map_map)
  also have "\<dots> = Inr (sum_list (map (\<lambda>i. g ! i * cs ! i) [0..<length cs]))"
    by (rule fsum_floats)
  finally show ?thesis by (simp add: sum_list_sum_nth atLeast0LessThan)
qed


lemma radviz_uv_floats:
  assumes "length S \<le> length g"
  shows "radviz_uv S (map PyFloat g) =
     Inr (if sum_list g > 0
          then ((\<Sum>i<length S. g ! i * fst (S ! i)) / sum_list g,
                (\<Sum>i<length S. g ! i * snd (S ! i)) / sum_list g)
          else (0, 0))"
  using assms by (simp add: radviz_uv_def fsum_floats weighted_fsum_floats)

lemma polar_uv_floats:
  assumes "length S \<le> length g"
  shows "polar_uv S (map PyFloat g) =
     Inr ((\<Sum>i<length S. g ! i * fst (S ! i)), (\<Sum>i<length S. g ! i * snd (S ! i)))"
  using assms by (simp add: polar_uv_def weighted_fsum_floats)

lemma length_axes: "length (axes m) = m" by (simp add: axes_def)
lemma nth_axes: "i < m \<Longrightarrow> axes m ! i = (cos (2 * pi * (real i / real m)), sin (2 * pi * (real i / real m)))"
  by (simp add: axes_def)

section \<open>The walk: what a step writes and what it leaves alone\<close>

lemma funpow_plus: "(f ^^ (m + n)) x = (f ^^ n) ((f ^^ m) x)"
  by (subst add.commute) (simp add: funpow_add)

lemma point_step_Inr:
  assumes "point_step proj pts use_wl ppl zgap st idx = Inr st'"
  shows "\<exists>f u v. py_index pts idx = Inr f \<and> proj f = Inr (u, v) \<and>
           palette_coords st' = (palette_coords st)(idx \<mapsto> [u, v, if use_wl then wl st else wc st]) \<and>
           wl st' = wl st \<and> (wc st', count st') = tick ppl zgap (wc st, count st)"
  using assms
  by (auto simp: point_step_def tick_def Let_def split: sum.splits prod.splits if_splits)

lemma walk_layer_append:
  "walk_layer proj pts use_wl ppl zgap st (xs @ ys) =
     (case walk_layer proj pts use_wl ppl zgap st xs of Inl e \<Rightarrow> Inl e
      | Inr st' \<Rightarrow> walk_layer proj pts use_wl ppl zgap st' ys)"
  by (induction xs arbitrary: st) (auto split: sum.splits)

lemma walk_layer_frame:
  assumes "walk_layer proj pts use_wl ppl zgap st xs = Inr st'"
  shows "wl st' = wl st \<and>
         (wc st', count st') = (tick ppl zgap ^^ length xs) (wc st, count st) \<and>
         dom (palette_coords st') = dom (palette_coords st) \<union> set xs \<and>
         (\<forall>i. i \<notin> set xs \<longrightarrow> palette_coords st' i = palette_coords st i)"
  using assms
proof (induction xs arbitrary: st)
  case Nil
  then show ?case by simp
next
  case (Cons idx xs)
  from Cons.prems obtain st1 where
    s1: "point_step proj pts use_wl ppl zgap st idx = Inr st1" and
    s2: "walk_layer proj pts use_wl ppl zgap st1 xs = Inr st'"
    by (auto split: sum.splits)
  from point_step_Inr [OF s1] obtain e where
    pc: "palette_coords st1 = (palette_coords st)(idx \<mapsto> e)" and
    w: "wl st1 = wl st" and t: "(wc st1, count st1) = tick ppl zgap (wc st, count st)"
    by blast
  from Cons.IH [OF s2] have
    a: "wl st' = wl st1" and
    b: "(wc st', count st') = (tick ppl zgap ^^ length xs) (wc st1, count st1)" and
    c: "dom (palette_coords st') = dom (palette_coords st1) \<union> set xs" and
    d: "\<forall>i. i \<notin> set xs \<longrightarrow> palette_coords st' i = palette_coords st1 i"
    by simp_all
  have "(wc st', count st') = (tick ppl zgap ^^ length (idx # xs)) (wc st, count st)"
    using b t by (simp add: funpow_swap1)
  moreover have "dom (palette_coords st') = dom (palette_coords st) \<union> set (idx # xs)"
    using c pc by auto
  moreover have "\<forall>i. i \<notin> set (idx # xs) \<longrightarrow> palette_coords st' i = palette_coords st i"
    using d pc by auto
  ultimately show ?case using a w by simp
qed

lemma walk_layer_last:
  assumes "walk_layer proj pts use_wl ppl zgap st (ys @ idx # zs) = Inr st'"
    and "idx \<notin> set zs"
  shows "\<exists>f u v. py_index pts idx = Inr f \<and> proj f = Inr (u, v) \<and>
           palette_coords st' idx =
             Some [u, v, if use_wl then wl st
                         else fst ((tick ppl zgap ^^ length ys) (wc st, count st))]"
proof -
  from assms(1) obtain st1 st2 where
    s1: "walk_layer proj pts use_wl ppl zgap st ys = Inr st1" and
    s2: "point_step proj pts use_wl ppl zgap st1 idx = Inr st2" and
    s3: "walk_layer proj pts use_wl ppl zgap st2 zs = Inr st'"
    by (auto simp: walk_layer_append split: sum.splits)
  from walk_layer_frame [OF s1] have
    a: "wl st1 = wl st" and
    b: "(wc st1, count st1) = (tick ppl zgap ^^ length ys) (wc st, count st)"
    by simp_all
  from b have b': "wc st1 = fst ((tick ppl zgap ^^ length ys) (wc st, count st))"
    by (metis fst_conv)
  from point_step_Inr [OF s2] obtain f u v where
    f: "py_index pts idx = Inr f" "proj f = Inr (u, v)" and
    pc: "palette_coords st2 = (palette_coords st1)(idx \<mapsto> [u, v, if use_wl then wl st1 else wc st1])"
    by blast
  from walk_layer_frame [OF s3] assms(2) have "palette_coords st' idx = palette_coords st2 idx"
    by simp
  with pc a b' f show ?thesis by simp
qed

lemma walk_layers_append:
  "walk_layers proj pts use_wl ppl zgap st (xs @ ys) =
     (case walk_layers proj pts use_wl ppl zgap st xs of Inl e \<Rightarrow> Inl e
      | Inr st' \<Rightarrow> walk_layers proj pts use_wl ppl zgap st' ys)"
  by (induction xs arbitrary: st) (auto split: sum.splits)

lemma walk_layers_frame:
  assumes "walk_layers proj pts use_wl ppl zgap st ls = Inr st'"
  shows "wl st' = wl st - real (length ls) * zgap \<and>
         (wc st', count st') = (tick ppl zgap ^^ length (concat ls)) (wc st, count st) \<and>
         dom (palette_coords st') = dom (palette_coords st) \<union> \<Union> (set ` set ls) \<and>
         (\<forall>i. i \<notin> \<Union> (set ` set ls) \<longrightarrow> palette_coords st' i = palette_coords st i)"
  using assms
proof (induction ls arbitrary: st)
  case Nil
  then show ?case by simp
next
  case (Cons l ls)
  from Cons.prems obtain st1 where
    s1: "walk_layer proj pts use_wl ppl zgap st l = Inr st1" and
    s2: "walk_layers proj pts use_wl ppl zgap (st1\<lparr>wl := wl st1 - zgap\<rparr>) ls = Inr st'"
    by (auto split: sum.splits)
  from walk_layer_frame [OF s1] have
    a1: "wl st1 = wl st" and
    b1: "(wc st1, count st1) = (tick ppl zgap ^^ length l) (wc st, count st)" and
    c1: "dom (palette_coords st1) = dom (palette_coords st) \<union> set l" and
    d1: "\<forall>i. i \<notin> set l \<longrightarrow> palette_coords st1 i = palette_coords st i"
    by simp_all
  from Cons.IH [OF s2] have
    a2: "wl st' = wl st1 - zgap - real (length ls) * zgap" and
    b2: "(wc st', count st') = (tick ppl zgap ^^ length (concat ls)) (wc st1, count st1)" and
    c2: "dom (palette_coords st') = dom (palette_coords st1) \<union> \<Union> (set ` set ls)" and
    d2: "\<forall>i. i \<notin> \<Union> (set ` set ls) \<longrightarrow> palette_coords st' i = palette_coords st1 i"
    by simp_all
  have "wl st' = wl st - real (length (l # ls)) * zgap"
    using a1 a2 by (simp add: algebra_simps)
  moreover have "(wc st', count st') = (tick ppl zgap ^^ length (concat (l # ls))) (wc st, count st)"
    using b1 b2 by (simp add: funpow_plus)
  moreover have "dom (palette_coords st') = dom (palette_coords st) \<union> \<Union> (set ` set (l # ls))"
    using c1 c2 by auto
  moreover have "\<forall>i. i \<notin> \<Union> (set ` set (l # ls)) \<longrightarrow> palette_coords st' i = palette_coords st i"
    using d1 d2 by auto
  ultimately show ?case by blast
qed

lemma walk_layers_last:
  assumes "walk_layers proj pts use_wl ppl zgap st (L1 @ (ys @ idx # zs) # L2) = Inr st'"
    and "idx \<notin> set zs" and "idx \<notin> \<Union> (set ` set L2)"
  shows "\<exists>f u v. py_index pts idx = Inr f \<and> proj f = Inr (u, v) \<and>
           palette_coords st' idx =
             Some [u, v, if use_wl then wl st - real (length L1) * zgap
                         else fst ((tick ppl zgap ^^ (length (concat L1) + length ys))
                                     (wc st, count st))]"
proof -
  from assms(1) obtain st1 st2 where
    s1: "walk_layers proj pts use_wl ppl zgap st L1 = Inr st1" and
    s2: "walk_layer proj pts use_wl ppl zgap st1 (ys @ idx # zs) = Inr st2" and
    s3: "walk_layers proj pts use_wl ppl zgap (st2\<lparr>wl := wl st2 - zgap\<rparr>) L2 = Inr st'"
    by (auto simp: walk_layers_append split: sum.splits)
  from walk_layers_frame [OF s1] have
    a: "wl st1 = wl st - real (length L1) * zgap" and
    b: "(wc st1, count st1) = (tick ppl zgap ^^ length (concat L1)) (wc st, count st)"
    by simp_all
  from walk_layer_last [OF s2 assms(2)] obtain f u v where
    f: "py_index pts idx = Inr f" "proj f = Inr (u, v)" and
    pc: "palette_coords st2 idx =
           Some [u, v, if use_wl then wl st1
                       else fst ((tick ppl zgap ^^ length ys) (wc st1, count st1))]"
    by blast
  have "(tick ppl zgap ^^ length ys) (wc st1, count st1)
      = (tick ppl zgap ^^ (length (concat L1) + length ys)) (wc st, count st)"
    using b by (simp add: funpow_plus)
  moreover from walk_layers_frame [OF s3] assms(3)
  have "palette_coords st' idx = palette_coords st2 idx" by simp
  ultimately show ?thesis using pc a f by simp
qed

lemma last_occurrence:
  assumes "idx \<in> \<Union> (set ` set layers)"
  shows "\<exists>L1 ys zs L2. layers = L1 @ (ys @ idx # zs) # L2 \<and> idx \<notin> set zs \<and>
           idx \<notin> \<Union> (set ` set L2)"
proof -
  from assms have "\<exists>l \<in> set layers. idx \<in> set l" by auto
  then obtain L1 l L2 where
    l: "layers = L1 @ l # L2" "idx \<in> set l" "\<forall>l' \<in> set L2. idx \<notin> set l'"
    by (auto dest!: split_list_last_prop)
  from l(2) obtain ys zs where "l = ys @ idx # zs" "idx \<notin> set zs"
    by (auto dest!: split_list_last)
  with l show ?thesis by auto
qed

section \<open>The result of a walk, and when it returns\<close>

lemma last_in_layer:
  assumes "idx \<in> set l"
  shows "\<exists>ys zs. l = ys @ idx # zs \<and> idx \<notin> set zs"
  using assms by (auto dest!: split_list_last)

lemma run_walk_dom:
  assumes "run_walk proj pts layers nl zgap = Inr pc"
  shows "dom pc = \<Union> (set ` set layers)"
proof -
  from assms obtain st where
    w: "walk_layers proj pts (nl = 0 \<or> int (length layers) \<le> nl)
          (points_per_layer (length pts) nl) zgap init_state layers = Inr st"
    and pc: "pc = palette_coords st"
    by (auto simp: run_walk_def Let_def split: sum.splits)
  from walk_layers_frame [OF w] have
    "dom (palette_coords st) = dom (palette_coords init_state) \<union> \<Union> (set ` set layers)"
    by blast
  then show ?thesis using pc by (simp add: init_state_def)
qed

lemma run_walk_entry:
  assumes "run_walk proj pts layers nl zgap = Inr pc"
    and "layers = L1 @ (ys @ idx # zs) # L2"
    and "idx \<notin> set zs" and "idx \<notin> \<Union> (set ` set L2)"
  shows "\<exists>f u v. py_index pts idx = Inr f \<and> proj f = Inr (u, v) \<and>
           pc idx = Some [u, v, if nl = 0 \<or> int (length layers) \<le> nl
                                then - real (length L1) * zgap
                                else fst ((tick (points_per_layer (length pts) nl) zgap ^^
                                            (length (concat L1) + length ys)) (0, 0))]"
proof -
  from assms(1) obtain st where
    w: "walk_layers proj pts (nl = 0 \<or> int (length layers) \<le> nl)
          (points_per_layer (length pts) nl) zgap init_state layers = Inr st"
    and pc: "pc = palette_coords st"
    by (auto simp: run_walk_def Let_def split: sum.splits)
  from w assms(2) have w':
    "walk_layers proj pts (nl = 0 \<or> int (length layers) \<le> nl)
          (points_per_layer (length pts) nl) zgap init_state (L1 @ (ys @ idx # zs) # L2) = Inr st"
    by simp
  from walk_layers_last [OF w' assms(3,4)] show ?thesis
    using pc by (auto simp: init_state_def)
qed

lemma point_step_total:
  assumes "py_index pts idx = Inr f" and "proj f = Inr uv"
  shows "\<exists>st'. point_step proj pts use_wl ppl zgap st idx = Inr st'"
  using assms by (cases uv) (simp add: point_step_def Let_def)

lemma walk_layer_total:
  assumes "\<forall>idx \<in> set xs. \<exists>f uv. py_index pts idx = Inr f \<and> proj f = Inr uv"
  shows "\<exists>st'. walk_layer proj pts use_wl ppl zgap st xs = Inr st'"
  using assms
proof (induction xs arbitrary: st)
  case Nil
  then show ?case by simp
next
  case (Cons idx xs)
  then obtain f uv where f: "py_index pts idx = Inr f" "proj f = Inr uv" by auto
  obtain st1 where "point_step proj pts use_wl ppl zgap st idx = Inr st1"
    using point_step_total [of pts idx f proj uv] f by blast
  moreover have "\<forall>idx \<in> set xs. \<exists>f uv. py_index pts idx = Inr f \<and> proj f = Inr uv"
    using Cons.prems by simp
  from Cons.IH [OF this] obtain st' where "walk_layer proj pts use_wl ppl zgap st1 xs = Inr st'"
    by blast
  ultimately show ?case by simp
qed

lemma walk_layers_total:
  assumes "\<forall>l \<in> set ls. \<forall>idx \<in> set l. \<exists>f uv. py_index pts idx = Inr f \<and> proj f = Inr uv"
  shows "\<exists>st'. walk_layers proj pts use_wl ppl zgap st ls = Inr st'"
  using assms
proof (induction ls arbitrary: st)
  case Nil
  then show ?case by simp
next
  case (Cons l ls)
  then have "\<forall>idx \<in> set l. \<exists>f uv. py_index pts idx = Inr f \<and> proj f = Inr uv" by simp
  from walk_layer_total [OF this] obtain st1 where
    "walk_layer proj pts use_wl ppl zgap st l = Inr st1" by blast
  moreover have
    "\<forall>l \<in> set ls. \<forall>idx \<in> set l. \<exists>f uv. py_index pts idx = Inr f \<and> proj f = Inr uv"
    using Cons.prems by simp
  from Cons.IH [OF this] obtain st' where
    "walk_layers proj pts use_wl ppl zgap (st1\<lparr>wl := wl st1 - zgap\<rparr>) ls = Inr st'"
    by blast
  ultimately show ?case by simp
qed

lemma run_walk_total:
  assumes "\<forall>l \<in> set layers. \<forall>idx \<in> set l. \<exists>f uv. py_index pts idx = Inr f \<and> proj f = Inr uv"
  shows "\<exists>pc. run_walk proj pts layers nl zgap = Inr pc"
proof -
  from walk_layers_total [OF assms] obtain st where
    "walk_layers proj pts (nl = 0 \<or> int (length layers) \<le> nl)
       (points_per_layer (length pts) nl) zgap init_state layers = Inr st" by blast
  then show ?thesis by (simp add: run_walk_def Let_def)
qed

lemma py_index_valid:
  assumes "- int (length xs) \<le> i" and "i < int (length xs)"
  shows "\<exists>x \<in> set xs. py_index xs i = Inr x"
  using assms by (auto simp: py_index_def)

lemma py_index_in_set: "py_index xs i = Inr x \<Longrightarrow> x \<in> set xs"
  by (auto simp: py_index_def split: if_splits)

lemma py_index_map: "py_index (map h xs) i = map_sum id h (py_index xs i)"
  by (auto simp: py_index_def)

lemma py_index_first: "py_index xs 0 = Inr x \<Longrightarrow> xs \<noteq> [] \<and> x = hd xs"
  by (cases xs) (auto simp: py_index_def)

section \<open>The three variants as walks over the preprocessed points\<close>

lemma py_index_hd: "xs \<noteq> [] \<Longrightarrow> py_index xs 0 = Inr (hd xs)"
  by (cases xs) (simp_all add: py_index_def)

lemma py_index_empty: "py_index [] i = Inl IndexError"
  by (simp add: py_index_def)

lemma palettize_unfold:
  assumes "points \<noteq> []"
  shows "palettize points layers nl zgap =
     run_walk (radviz_uv (axes (length (hd points))))
       (map (map (\<lambda>f. PyFloat (f ^ (if length (hd points) > 3 then 2 else 1)))) points)
       layers nl zgap"
proof -
  have "scale points (real (if length (hd points) > 3 then 2 else 1)) =
        Inr (map (map (\<lambda>f. PyFloat (f ^ (if length (hd points) > 3 then 2 else 1)))) points)"
    by (rule scale_nat) simp
  moreover have "real (if length (hd points) > 3 then 2 else 1)
               = (if length (hd points) > 3 then 2 else 1)" by simp
  ultimately have "scale points (if length (hd points) > 3 then 2 else 1) =
        Inr (map (map (\<lambda>f. PyFloat (f ^ (if length (hd points) > 3 then 2 else 1)))) points)"
    by (simp only:)
  then show ?thesis
    using assms by (simp add: palettize_def py_index_hd Let_def)
qed

lemma palettize_polar_unfold:
  assumes "points \<noteq> []"
  shows "palettize_polar points layers nl zgap =
     run_walk (polar_uv (axes (length (hd points))))
       (map (map (\<lambda>f. PyFloat ((1 - f) ^ (if length (hd points) > 3 then 3 else 2)))) points)
       layers nl zgap"
proof -
  have "scale (reverse_normalize points) (real (if length (hd points) > 3 then 3 else 2)) =
        Inr (map (map (\<lambda>f. PyFloat (f ^ (if length (hd points) > 3 then 3 else 2))))
               (reverse_normalize points))"
    by (rule scale_nat) simp
  moreover have "real (if length (hd points) > 3 then 3 else 2)
               = (if length (hd points) > 3 then 3 else 2)" by simp
  ultimately have "scale (reverse_normalize points) (if length (hd points) > 3 then 3 else 2) =
        Inr (map (map (\<lambda>f. PyFloat (f ^ (if length (hd points) > 3 then 3 else 2))))
               (reverse_normalize points))"
    by (simp only:)
  moreover have "map (map (\<lambda>f. PyFloat (f ^ n))) (reverse_normalize points)
               = map (map (\<lambda>f. PyFloat ((1 - f) ^ n))) points" for n
    by (simp add: reverse_normalize_def comp_def)
  ultimately show ?thesis
    using assms by (simp add: palettize_polar_def py_index_hd Let_def)
qed

lemma palettize_logistic_unfold:
  assumes "points \<noteq> []"
  shows "palettize_logistic points layers nl zgap =
     run_walk (radviz_uv (axes (length (hd points))))
       (map (map (\<lambda>v. PyFloat (logistic_remap 15 v))) points) layers nl zgap"
proof -
  have "map (map PyFloat) (logistic_map points 15)
      = map (map (\<lambda>v. PyFloat (logistic_remap 15 v))) points"
    by (simp add: logistic_map_def comp_def)
  moreover have "hd (map (map (\<lambda>v. PyFloat (logistic_remap 15 v))) points)
      = map (\<lambda>v. PyFloat (logistic_remap 15 v)) (hd points)"
    using assms by (simp add: hd_map)
  ultimately show ?thesis
    using assms by (simp add: palettize_logistic_def py_index_hd Let_def)
qed

lemma palettize_empty: "palettize [] layers nl zgap = Inl IndexError"
  by (simp add: palettize_def py_index_empty)

lemma palettize_polar_empty: "palettize_polar [] layers nl zgap = Inl IndexError"
  by (simp add: palettize_polar_def py_index_empty)

lemma palettize_logistic_empty: "palettize_logistic [] layers nl zgap = Inl IndexError"
  by (simp add: palettize_logistic_def logistic_map_def py_index_empty)

text \<open>
  In each variant the preprocessed collection is \<open>map (map (\<lambda>f. PyFloat (h f))) points\<close>
  for a function \<open>h\<close> on the coordinates.
\<close>

lemma py_index_floats:
  assumes "py_index points idx = Inr p"
  shows "py_index (map (map (\<lambda>f. PyFloat (h f))) points) idx = Inr (map PyFloat (map h p))"
  using assms by (simp add: py_index_map comp_def)

lemma radviz_total:
  assumes "\<forall>p \<in> set points. length p = m"
    and "\<forall>l \<in> set layers. \<forall>i \<in> set l. - int (length points) \<le> i \<and> i < int (length points)"
  shows "\<forall>l \<in> set layers. \<forall>idx \<in> set l. \<exists>f uv.
           py_index (map (map (\<lambda>f. PyFloat (h f))) points) idx = Inr f \<and>
           radviz_uv (axes m) f = Inr uv"
proof (intro ballI)
  fix l idx assume "l \<in> set layers" "idx \<in> set l"
  with assms(2) obtain p where p: "p \<in> set points" "py_index points idx = Inr p"
    using py_index_valid [of points idx] by blast
  then have "length (axes m) \<le> length (map h p)" using assms(1) by (simp add: length_axes)
  from radviz_uv_floats [OF this] py_index_floats [OF p(2), of h]
  show "\<exists>f uv. py_index (map (map (\<lambda>f. PyFloat (h f))) points) idx = Inr f \<and>
           radviz_uv (axes m) f = Inr uv" by blast
qed

lemma polar_total:
  assumes "\<forall>p \<in> set points. length p = m"
    and "\<forall>l \<in> set layers. \<forall>i \<in> set l. - int (length points) \<le> i \<and> i < int (length points)"
  shows "\<forall>l \<in> set layers. \<forall>idx \<in> set l. \<exists>f uv.
           py_index (map (map (\<lambda>f. PyFloat (h f))) points) idx = Inr f \<and>
           polar_uv (axes m) f = Inr uv"
proof (intro ballI)
  fix l idx assume "l \<in> set layers" "idx \<in> set l"
  with assms(2) obtain p where p: "p \<in> set points" "py_index points idx = Inr p"
    using py_index_valid [of points idx] by blast
  then have "length (axes m) \<le> length (map h p)" using assms(1) by (simp add: length_axes)
  from polar_uv_floats [OF this] py_index_floats [OF p(2), of h]
  show "\<exists>f uv. py_index (map (map (\<lambda>f. PyFloat (h f))) points) idx = Inr f \<and>
           polar_uv (axes m) f = Inr uv" by blast
qed

lemma palettize_total:
  assumes "points \<noteq> []" and "\<forall>p \<in> set points. length p = m"
    and "\<forall>l \<in> set layers. \<forall>i \<in> set l. - int (length points) \<le> i \<and> i < int (length points)"
  shows "\<exists>pc. palettize points layers nl zgap = Inr pc"
proof -
  have "length (hd points) = m" using assms(1,2) by simp
  then show ?thesis
    using run_walk_total [OF radviz_total [OF assms(2,3)]] palettize_unfold [OF assms(1)]
    by simp
qed

lemma palettize_polar_total:
  assumes "points \<noteq> []" and "\<forall>p \<in> set points. length p = m"
    and "\<forall>l \<in> set layers. \<forall>i \<in> set l. - int (length points) \<le> i \<and> i < int (length points)"
  shows "\<exists>pc. palettize_polar points layers nl zgap = Inr pc"
proof -
  have "length (hd points) = m" using assms(1,2) by simp
  then show ?thesis
    using run_walk_total [OF polar_total [OF assms(2,3)]] palettize_polar_unfold [OF assms(1)]
    by simp
qed

lemma palettize_logistic_total:
  assumes "points \<noteq> []" and "\<forall>p \<in> set points. length p = m"
    and "\<forall>l \<in> set layers. \<forall>i \<in> set l. - int (length points) \<le> i \<and> i < int (length points)"
  shows "\<exists>pc. palettize_logistic points layers nl zgap = Inr pc"
proof -
  have "length (hd points) = m" using assms(1,2) by simp
  then show ?thesis
    using run_walk_total [OF radviz_total [OF assms(2,3)]] palettize_logistic_unfold [OF assms(1)]
    by simp
qed

section \<open>The entry of an index at its last listing\<close>

lemma tick_track: "(tick ppl zgap ^^ n) (0, 0) = wc_track_spec ppl zgap n"
  by (induction n) (auto simp: tick_def reaches_def split: prod.splits option.splits)

lemma last_at_split:
  assumes "last_at layers j k idx"
  shows "layers = take j layers @ (take k (layers ! j) @ idx # drop (Suc k) (layers ! j)) #
                    drop (Suc j) layers"
proof -
  from assms have j: "j < length layers" and k: "k < length (layers ! j)"
    and i: "layers ! j ! k = idx" by (simp_all add: last_at_def)
  have "layers ! j = take k (layers ! j) @ idx # drop (Suc k) (layers ! j)"
    using id_take_nth_drop [OF k] i by simp
  moreover have "layers = take j layers @ layers ! j # drop (Suc j) layers"
    by (rule id_take_nth_drop [OF j])
  ultimately show ?thesis by simp
qed

lemma run_walk_last_at:
  assumes "run_walk proj pts layers nl zgap = Inr pc" and "last_at layers j k idx"
  shows "\<exists>f u v. py_index pts idx = Inr f \<and> proj f = Inr (u, v) \<and>
           pc idx = Some [u, v, depth_spec (length pts) layers nl zgap j k]"
proof -
  from assms(2) have j: "j < length layers" and k: "k < length (layers ! j)"
    and z: "idx \<notin> set (drop (Suc k) (layers ! j))"
    and l: "idx \<notin> \<Union> (set ` set (drop (Suc j) layers))"
    by (auto simp: last_at_def)
  have tj: "length (take j layers) = j" and tk: "length (take k (layers ! j)) = k"
    using j k by simp_all
  from run_walk_entry [OF assms(1) last_at_split [OF assms(2)] z l]
  obtain f u v where "py_index pts idx = Inr f" "proj f = Inr (u, v)"
    "pc idx = Some [u, v, if nl = 0 \<or> int (length layers) \<le> nl then - real j * zgap
                         else fst ((tick (points_per_layer (length pts) nl) zgap ^^
                                      (length (concat (take j layers)) + k)) (0, 0))]"
    unfolding tj tk by blast
  then show ?thesis by (auto simp: depth_spec_def tick_track)
qed

lemma last_at_exists:
  assumes "idx \<in> \<Union> (set ` set layers)"
  shows "\<exists>j k. last_at layers j k idx"
proof -
  from last_occurrence [OF assms] obtain L1 ys zs L2 where
    l: "layers = L1 @ (ys @ idx # zs) # L2" "idx \<notin> set zs" "idx \<notin> \<Union> (set ` set L2)"
    by blast
  then have "last_at layers (length L1) (length ys) idx"
    by (auto simp: last_at_def nth_append)
  then show ?thesis by blast
qed

lemma last_in_layer_at:
  assumes "j < length layers" and "idx \<in> set (layers ! j)"
    and "\<forall>l \<in> set (drop (Suc j) layers). idx \<notin> set l"
  shows "\<exists>k. last_at layers j k idx"
proof -
  from last_in_layer [OF assms(2)] obtain ys zs where
    "layers ! j = ys @ idx # zs" "idx \<notin> set zs" by blast
  then have "last_at layers j (length ys) idx"
    using assms(1,3) by (auto simp: last_at_def)
  then show ?thesis by blast
qed

lemma run_walk_floats_entry:
  assumes "run_walk proj (map (map (\<lambda>f. PyFloat (h f))) points) layers nl zgap = Inr pc"
    and "last_at layers j k idx"
  shows "\<exists>p u v. py_index points idx = Inr p \<and> proj (map PyFloat (map h p)) = Inr (u, v) \<and>
           pc idx = Some [u, v, depth_spec (length points) layers nl zgap j k]"
proof -
  from run_walk_last_at [OF assms] obtain f u v where
    f: "py_index (map (map (\<lambda>f. PyFloat (h f))) points) idx = Inr f" "proj f = Inr (u, v)"
    and pc: "pc idx = Some [u, v, depth_spec (length points) layers nl zgap j k]"
    by auto
  from f(1) obtain p where "py_index points idx = Inr p" "f = map PyFloat (map h p)"
    by (cases "py_index points idx") (auto simp: py_index_map comp_def)
  with f(2) pc show ?thesis by blast
qed

section \<open>The projections\<close>

lemma radviz_uv_axes:
  assumes "length g = m"
  shows "radviz_uv (axes m) (map PyFloat g) =
     Inr (if 0 < sum_list g
          then ((\<Sum>i<m. g ! i * cos (2 * pi * (real i / real m))) / sum_list g,
                (\<Sum>i<m. g ! i * sin (2 * pi * (real i / real m))) / sum_list g)
          else (0, 0))"
proof -
  have "length (axes m) \<le> length g" using assms by (simp add: length_axes)
  from radviz_uv_floats [OF this] show ?thesis
    by (simp add: length_axes nth_axes)
qed

lemma polar_uv_axes:
  assumes "length g = m"
  shows "polar_uv (axes m) (map PyFloat g) =
     Inr ((\<Sum>i<m. g ! i * cos (2 * pi * (real i / real m))),
          (\<Sum>i<m. g ! i * sin (2 * pi * (real i / real m))))"
proof -
  have "length (axes m) \<le> length g" using assms by (simp add: length_axes)
  from polar_uv_floats [OF this] show ?thesis
    by (simp add: length_axes nth_axes)
qed

lemma sum_nth_map:
  "length p = m \<Longrightarrow> (\<Sum>i<m. map h p ! i * c i) = (\<Sum>i<m. h (p ! i) * (c i :: real))"
  by (rule sum.cong) simp_all

text \<open>
  C1. For a non-empty collection of points of dimension \<open>m\<close> and layers of valid indices,
  palettize scales with the exponent \<open>e = 2\<close> if \<open>m > 3\<close> and \<open>e = 1\<close> otherwise, which
  replaces each coordinate \<open>f\<close> by \<open>f ^ e\<close>, and returns a mapping in which each listed
  index has \<open>u\<close> and \<open>v\<close> equal to the sums of the scaled coordinates weighted by the cosines
  and sines of the angles \<open>2 pi i / m\<close>, divided by the sum of the scaled coordinates when
  that sum is positive, and \<open>u = v = 0\<close> otherwise.
\<close>

theorem palettize_normalized_uv:
  assumes "points \<noteq> []" and "\<forall>p \<in> set points. length p = m"
    and "\<forall>l \<in> set layers. \<forall>i \<in> set l. - int (length points) \<le> i \<and> i < int (length points)"
    and "idx \<in> \<Union> (set ` set layers)"
    and "e = (if 3 < m then 2 else 1)"
  shows "scale points (real e) = Inr (map (map (\<lambda>f. PyFloat (f ^ e))) points) \<and>
    (\<exists>pc p w. palettize points layers n_layers zgap = Inr pc \<and> py_index points idx = Inr p \<and>
       pc idx = Some
         [if 0 < (\<Sum>f\<leftarrow>p. f ^ e)
          then (\<Sum>i<m. p ! i ^ e * cos (2 * pi * (real i / real m))) / (\<Sum>f\<leftarrow>p. f ^ e) else 0,
          if 0 < (\<Sum>f\<leftarrow>p. f ^ e)
          then (\<Sum>i<m. p ! i ^ e * sin (2 * pi * (real i / real m))) / (\<Sum>f\<leftarrow>p. f ^ e) else 0,
          w])"
proof
  show "scale points (real e) = Inr (map (map (\<lambda>f. PyFloat (f ^ e))) points)"
    by (rule scale_nat) (simp add: assms(5))
next
  have m: "length (hd points) = m" using assms(1,2) by simp
  from palettize_total [OF assms(1-3)] obtain pc where
    pc: "palettize points layers n_layers zgap = Inr pc" by blast
  then have rw: "run_walk (radviz_uv (axes m)) (map (map (\<lambda>f. PyFloat (f ^ e))) points)
                   layers n_layers zgap = Inr pc"
    using palettize_unfold [OF assms(1), of layers n_layers zgap] m assms(5) by simp
  from last_at_exists [OF assms(4)] obtain j k where "last_at layers j k idx" by blast
  from run_walk_floats_entry [OF rw this] obtain p u v w where
    p: "py_index points idx = Inr p" and
    uv: "radviz_uv (axes m) (map PyFloat (map (\<lambda>f. f ^ e) p)) = Inr (u, v)" and
    e: "pc idx = Some [u, v, w]" by blast
  have len: "length p = m" using py_index_in_set [OF p] assms(2) by simp
  then have "length (map (\<lambda>f. f ^ e) p) = m" by simp
  from radviz_uv_axes [OF this] uv have
    "u = (if 0 < (\<Sum>f\<leftarrow>p. f ^ e)
          then (\<Sum>i<m. p ! i ^ e * cos (2 * pi * (real i / real m))) / (\<Sum>f\<leftarrow>p. f ^ e) else 0)"
    "v = (if 0 < (\<Sum>f\<leftarrow>p. f ^ e)
          then (\<Sum>i<m. p ! i ^ e * sin (2 * pi * (real i / real m))) / (\<Sum>f\<leftarrow>p. f ^ e) else 0)"
    by (simp_all add: sum_nth_map [OF len] split: if_splits)
  with pc p e show "\<exists>pc p w. palettize points layers n_layers zgap = Inr pc \<and>
       py_index points idx = Inr p \<and>
       pc idx = Some
         [if 0 < (\<Sum>f\<leftarrow>p. f ^ e)
          then (\<Sum>i<m. p ! i ^ e * cos (2 * pi * (real i / real m))) / (\<Sum>f\<leftarrow>p. f ^ e) else 0,
          if 0 < (\<Sum>f\<leftarrow>p. f ^ e)
          then (\<Sum>i<m. p ! i ^ e * sin (2 * pi * (real i / real m))) / (\<Sum>f\<leftarrow>p. f ^ e) else 0,
          w]" by blast
qed

theorem palettize_normalized_uv_witness:
  "\<exists>pc w. palettize [[0, 2, 0, 0], [0, 0, 0, 0]] [[0], [1]] 0 1 = Inr pc \<and> pc 0 = Some [0, 1, w]"
proof -
  have "\<exists>pc p w. palettize [[0, 2, 0, 0], [0, 0, 0, 0]] [[0], [1]] 0 1 = Inr pc \<and>
      py_index [[0, 2, 0, 0], [0, 0, 0, 0]] 0 = Inr p \<and>
      pc 0 = Some
         [if 0 < (\<Sum>f\<leftarrow>p. f ^ 2)
          then (\<Sum>i<4. p ! i ^ 2 * cos (2 * pi * (real i / real 4))) / (\<Sum>f\<leftarrow>p. f ^ 2) else 0,
          if 0 < (\<Sum>f\<leftarrow>p. f ^ 2)
          then (\<Sum>i<4. p ! i ^ 2 * sin (2 * pi * (real i / real 4))) / (\<Sum>f\<leftarrow>p. f ^ 2) else 0,
          w]"
    using palettize_normalized_uv [of "[[0, 2, 0, 0], [0, 0, 0, 0]]" 4 "[[0], [1]]" 0 2 0 1]
    by simp
  then obtain pc p w where
    pc: "palettize [[0, 2, 0, 0], [0, 0, 0, 0]] [[0], [1]] 0 1 = Inr pc" and
    p: "py_index [[0, 2, 0, 0], [0, 0, 0, 0]] 0 = Inr p" and
    e: "pc 0 = Some
         [if 0 < (\<Sum>f\<leftarrow>p. f ^ 2)
          then (\<Sum>i<4. p ! i ^ 2 * cos (2 * pi * (real i / real 4))) / (\<Sum>f\<leftarrow>p. f ^ 2) else 0,
          if 0 < (\<Sum>f\<leftarrow>p. f ^ 2)
          then (\<Sum>i<4. p ! i ^ 2 * sin (2 * pi * (real i / real 4))) / (\<Sum>f\<leftarrow>p. f ^ 2) else 0,
          w]" by blast
  from p have "p = [0, 2, 0, 0]" by (simp add: py_index_def)
  with e have "pc 0 = Some [0, 1, w]"
    by (simp add: eval_nat_numeral lessThan_Suc)
  with pc show ?thesis by blast
qed

text \<open>
  C8. For a non-empty collection of points of dimension \<open>m\<close> and layers of valid indices,
  palettize_polar replaces each coordinate \<open>f\<close> by \<open>1 - f\<close>, raises that to \<open>e = 3\<close> if
  \<open>m > 3\<close> and \<open>e = 2\<close> otherwise, and gives each listed index the sums of the resulting
  coordinates weighted by the cosines and sines of the angles \<open>2 pi i / m\<close> as \<open>u\<close> and
  \<open>v\<close>, with no division by the coordinate sum.
\<close>

theorem palettize_polar_uv:
  assumes "points \<noteq> []" and "\<forall>p \<in> set points. length p = m"
    and "\<forall>l \<in> set layers. \<forall>i \<in> set l. - int (length points) \<le> i \<and> i < int (length points)"
    and "idx \<in> \<Union> (set ` set layers)"
    and "e = (if 3 < m then 3 else 2)"
  shows "scale (reverse_normalize points) (real e) =
           Inr (map (map (\<lambda>f. PyFloat ((1 - f) ^ e))) points) \<and>
    (\<exists>pc p w. palettize_polar points layers n_layers zgap = Inr pc \<and>
       py_index points idx = Inr p \<and>
       pc idx = Some
         [\<Sum>i<m. (1 - p ! i) ^ e * cos (2 * pi * (real i / real m)),
          \<Sum>i<m. (1 - p ! i) ^ e * sin (2 * pi * (real i / real m)),
          w])"
proof
  have "scale (reverse_normalize points) (real e) =
          Inr (map (map (\<lambda>f. PyFloat (f ^ e))) (reverse_normalize points))"
    by (rule scale_nat) (simp add: assms(5))
  then show "scale (reverse_normalize points) (real e) =
           Inr (map (map (\<lambda>f. PyFloat ((1 - f) ^ e))) points)"
    by (simp add: reverse_normalize_def comp_def)
next
  have m: "length (hd points) = m" using assms(1,2) by simp
  from palettize_polar_total [OF assms(1-3)] obtain pc where
    pc: "palettize_polar points layers n_layers zgap = Inr pc" by blast
  then have rw: "run_walk (polar_uv (axes m)) (map (map (\<lambda>f. PyFloat ((1 - f) ^ e))) points)
                   layers n_layers zgap = Inr pc"
    using palettize_polar_unfold [OF assms(1), of layers n_layers zgap] m assms(5) by simp
  from last_at_exists [OF assms(4)] obtain j k where "last_at layers j k idx" by blast
  from run_walk_floats_entry [OF rw this] obtain p u v w where
    p: "py_index points idx = Inr p" and
    uv: "polar_uv (axes m) (map PyFloat (map (\<lambda>f. (1 - f) ^ e) p)) = Inr (u, v)" and
    e: "pc idx = Some [u, v, w]" by blast
  have len: "length p = m" using py_index_in_set [OF p] assms(2) by simp
  then have "length (map (\<lambda>f. (1 - f) ^ e) p) = m" by simp
  from polar_uv_axes [OF this] uv have
    "u = (\<Sum>i<m. (1 - p ! i) ^ e * cos (2 * pi * (real i / real m)))"
    "v = (\<Sum>i<m. (1 - p ! i) ^ e * sin (2 * pi * (real i / real m)))"
    by (simp_all add: sum_nth_map [OF len])
  with pc p e show "\<exists>pc p w. palettize_polar points layers n_layers zgap = Inr pc \<and>
       py_index points idx = Inr p \<and>
       pc idx = Some
         [\<Sum>i<m. (1 - p ! i) ^ e * cos (2 * pi * (real i / real m)),
          \<Sum>i<m. (1 - p ! i) ^ e * sin (2 * pi * (real i / real m)),
          w]" by blast
qed

theorem palettize_polar_uv_witness:
  "\<exists>pc w. palettize_polar [[1, 3, 1, 1], [0, 0, 0, 0]] [[0], [1]] 0 1 = Inr pc \<and>
          pc 0 = Some [0, - 8, w]"
proof -
  have "\<exists>pc p w. palettize_polar [[1, 3, 1, 1], [0, 0, 0, 0]] [[0], [1]] 0 1 = Inr pc \<and>
      py_index [[1, 3, 1, 1], [0, 0, 0, 0]] 0 = Inr p \<and>
      pc 0 = Some
         [\<Sum>i<4. (1 - p ! i) ^ 3 * cos (2 * pi * (real i / real 4)),
          \<Sum>i<4. (1 - p ! i) ^ 3 * sin (2 * pi * (real i / real 4)),
          w]"
    using palettize_polar_uv [of "[[1, 3, 1, 1], [0, 0, 0, 0]]" 4 "[[0], [1]]" 0 3 0 1]
    by simp
  then obtain pc p w where
    pc: "palettize_polar [[1, 3, 1, 1], [0, 0, 0, 0]] [[0], [1]] 0 1 = Inr pc" and
    p: "py_index [[1, 3, 1, 1], [0, 0, 0, 0]] 0 = Inr p" and
    e: "pc 0 = Some
         [\<Sum>i<4. (1 - p ! i) ^ 3 * cos (2 * pi * (real i / real 4)),
          \<Sum>i<4. (1 - p ! i) ^ 3 * sin (2 * pi * (real i / real 4)),
          w]" by blast
  from p have "p = [1, 3, 1, 1]" by (simp add: py_index_def)
  with e have "pc 0 = Some [0, - 8, w]"
    by (simp add: eval_nat_numeral lessThan_Suc)
  with pc show ?thesis by blast
qed

lemma radviz_uv_nonpositive:
  assumes "fsum f = Inr s" and "s \<le> 0"
  shows "radviz_uv S f = Inr (0, 0)"
  using assms by (simp add: radviz_uv_def)

text \<open>
  C10. In palettize and palettize_logistic the division is under the guard \<open>fsum > 0.0\<close>:
  whenever the sum of a point's preprocessed coordinates is not positive (zero or
  negative), the projection returns \<open>(0, 0)\<close> without evaluating the weighted sums, so
  without an error whatever the axes and the length of the point are, and the entry of
  that point in the returned mapping has \<open>u = v = 0\<close>.
\<close>

theorem nonpositive_sum_gives_origin:
  "(fsum f = Inr s \<and> s \<le> 0 \<longrightarrow> radviz_uv S f = Inr (0, 0)) \<and>
   (palettize points layers n_layers zgap = Inr pc \<and> idx \<in> \<Union> (set ` set layers) \<and>
    py_index points idx = Inr p \<and>
    (\<Sum>f\<leftarrow>p. f ^ (if 3 < length (hd points) then 2 else 1)) \<le> 0
      \<longrightarrow> (\<exists>w. pc idx = Some [0, 0, w])) \<and>
   (palettize_logistic points layers n_layers zgap = Inr pc' \<and> idx \<in> \<Union> (set ` set layers) \<and>
    py_index points idx = Inr p \<and> (\<Sum>v\<leftarrow>p. logistic_remap 15 v) \<le> 0
      \<longrightarrow> (\<exists>w. pc' idx = Some [0, 0, w]))"
proof (intro conjI impI)
  assume "fsum f = Inr s \<and> s \<le> 0"
  then show "radviz_uv S f = Inr (0, 0)" by (simp add: radviz_uv_nonpositive)
next
  assume a: "palettize points layers n_layers zgap = Inr pc \<and> idx \<in> \<Union> (set ` set layers) \<and>
    py_index points idx = Inr p \<and>
    (\<Sum>f\<leftarrow>p. f ^ (if 3 < length (hd points) then 2 else 1)) \<le> 0"
  then have ne: "points \<noteq> []" by (auto simp: palettize_empty)
  from a have rw: "run_walk (radviz_uv (axes (length (hd points))))
       (map (map (\<lambda>f. PyFloat (f ^ (if length (hd points) > 3 then 2 else 1)))) points)
       layers n_layers zgap = Inr pc"
    using palettize_unfold [OF ne, of layers n_layers zgap] by simp
  from a last_at_exists obtain j k where "last_at layers j k idx" by blast
  from run_walk_floats_entry [OF rw this] a obtain u v w where
    uv: "radviz_uv (axes (length (hd points)))
           (map PyFloat (map (\<lambda>f. f ^ (if length (hd points) > 3 then 2 else 1)) p)) = Inr (u, v)"
    and e: "pc idx = Some [u, v, w]" by auto
  have "radviz_uv (axes (length (hd points)))
           (map PyFloat (map (\<lambda>f. f ^ (if length (hd points) > 3 then 2 else 1)) p)) = Inr (0, 0)"
    using a by (intro radviz_uv_nonpositive [OF fsum_floats]) simp
  with uv e show "\<exists>w. pc idx = Some [0, 0, w]" by simp
next
  assume a: "palettize_logistic points layers n_layers zgap = Inr pc' \<and>
    idx \<in> \<Union> (set ` set layers) \<and>
    py_index points idx = Inr p \<and> (\<Sum>v\<leftarrow>p. logistic_remap 15 v) \<le> 0"
  then have ne: "points \<noteq> []" by (auto simp: palettize_logistic_empty)
  from a have rw: "run_walk (radviz_uv (axes (length (hd points))))
       (map (map (\<lambda>v. PyFloat (logistic_remap 15 v))) points) layers n_layers zgap = Inr pc'"
    using palettize_logistic_unfold [OF ne, of layers n_layers zgap] by simp
  from a last_at_exists obtain j k where "last_at layers j k idx" by blast
  from run_walk_floats_entry [OF rw this] a obtain u v w where
    uv: "radviz_uv (axes (length (hd points)))
           (map PyFloat (map (\<lambda>v. logistic_remap 15 v) p)) = Inr (u, v)"
    and e: "pc' idx = Some [u, v, w]" by auto
  have "radviz_uv (axes (length (hd points)))
           (map PyFloat (map (\<lambda>v. logistic_remap 15 v) p)) = Inr (0, 0)"
    using a by (intro radviz_uv_nonpositive [OF fsum_floats]) simp
  with uv e show "\<exists>w. pc' idx = Some [0, 0, w]" by simp
qed

theorem nonpositive_sum_gives_origin_witness:
  "radviz_uv (axes 2) [PyFloat (- 1)] = Inr (0, 0) \<and>
   (\<exists>pc w. palettize [[- 1, 0], [1, 1]] [[0, 1]] 0 1 = Inr pc \<and> pc 0 = Some [0, 0, w]) \<and>
   (\<exists>pc w. palettize_logistic [[- 1, 0], [1, 1]] [[0, 1]] 0 1 = Inr pc \<and>
            pc 0 = Some [0, 0, w])"
proof -
  obtain pc where pc: "palettize [[- 1, 0], [1, 1]] [[0, 1]] 0 1 = Inr pc"
    using palettize_total [of "[[- 1, 0], [1, 1]]" 2 "[[0, 1]]" 0 1] by auto
  obtain pc' where pc': "palettize_logistic [[- 1, 0], [1, 1]] [[0, 1]] 0 1 = Inr pc'"
    using palettize_logistic_total [of "[[- 1, 0], [1, 1]]" 2 "[[0, 1]]" 0 1] by auto
  have neg: "logistic_remap 15 (- 1) < 0"
    using logistic_remap_less [of "- 1" 0] by (simp add: logistic_remap_zero)
  note w = nonpositive_sum_gives_origin
    [where f = "[PyFloat (- 1)]" and s = "- 1" and S = "axes 2"
       and points = "[[- 1, 0], [1, 1]]" and layers = "[[0, 1]]" and n_layers = 0 and zgap = 1
       and pc = pc and pc' = pc' and idx = 0 and p = "[- 1, 0]"]
  have "radviz_uv (axes 2) [PyFloat (- 1)] = Inr (0, 0)"
    using w by simp
  moreover have "\<exists>w. pc 0 = Some [0, 0, w]"
    using w pc by (simp add: py_index_def)
  moreover have "\<exists>w. pc' 0 = Some [0, 0, w]"
    using w pc' neg by (simp add: py_index_def logistic_remap_zero)
  ultimately show ?thesis using pc pc' by blast
qed

section \<open>Scale invariance\<close>

lemma radviz_uv_scaled:
  assumes "length p = m" and "0 < (k::real)" and "0 < (\<Sum>f\<leftarrow>p. f ^ e)"
  shows "radviz_uv (axes m) (map PyFloat (map (\<lambda>f. f ^ e) (map (\<lambda>f. k * f) p))) =
         radviz_uv (axes m) (map PyFloat (map (\<lambda>f. f ^ e) p))"
proof -
  have ke: "0 < k ^ e" using assms(2) by simp
  have s: "(\<Sum>f\<leftarrow>p. (k * f) ^ e) = k ^ e * (\<Sum>f\<leftarrow>p. f ^ e)"
    by (simp add: power_mult_distrib sum_list_const_mult)
  have w: "(\<Sum>i<m. (k * p ! i) ^ e * c i) = k ^ e * (\<Sum>i<m. p ! i ^ e * c i)" for c :: "nat \<Rightarrow> real"
    by (simp add: power_mult_distrib sum_distrib_left mult.assoc)
  have pos: "0 < (\<Sum>f\<leftarrow>p. (k * f) ^ e)" using s ke assms(3) by simp
  have l1: "length (map (\<lambda>f. f ^ e) (map (\<lambda>f. k * f) p)) = m"
    and l2: "length (map (\<lambda>f. f ^ e) p) = m" using assms(1) by simp_all
  have m1: "map (\<lambda>f. f ^ e) (map (\<lambda>f. k * f) p) = map (\<lambda>f. (k * f) ^ e) p" by simp
  have "radviz_uv (axes m) (map PyFloat (map (\<lambda>f. (k * f) ^ e) p)) =
        Inr ((\<Sum>i<m. (k * p ! i) ^ e * cos (2 * pi * (real i / real m))) / (\<Sum>f\<leftarrow>p. (k * f) ^ e),
             (\<Sum>i<m. (k * p ! i) ^ e * sin (2 * pi * (real i / real m))) / (\<Sum>f\<leftarrow>p. (k * f) ^ e))"
    using radviz_uv_axes [of "map (\<lambda>f. (k * f) ^ e) p" m] pos assms(1)
    by (simp add: sum_nth_map [OF assms(1)] comp_def)
  moreover have "radviz_uv (axes m) (map PyFloat (map (\<lambda>f. f ^ e) p)) =
        Inr ((\<Sum>i<m. p ! i ^ e * cos (2 * pi * (real i / real m))) / (\<Sum>f\<leftarrow>p. f ^ e),
             (\<Sum>i<m. p ! i ^ e * sin (2 * pi * (real i / real m))) / (\<Sum>f\<leftarrow>p. f ^ e))"
    using radviz_uv_axes [OF l2] assms(3)
    by (simp add: sum_nth_map [OF assms(1)] comp_def)
  moreover have "(k ^ e * a) / (k ^ e * b) = a / b" for a b :: real
    using assms(2) by simp
  ultimately show ?thesis unfolding m1 s w by simp
qed

text \<open>
  C5. Scale invariance of the normalized variant: when two collections of the same size
  and dimension hold at \<open>idx\<close> a point \<open>p\<close> and the point \<open>k p\<close> for a positive \<open>k\<close>, and
  the sum of the preprocessed coordinates of \<open>p\<close> is positive, palettize returns for both
  an entry at \<open>idx\<close> with the same \<open>u\<close> and \<open>v\<close> (and the same depth).
\<close>

theorem palettize_scale_invariant:
  assumes "points \<noteq> []" and "\<forall>p \<in> set points. length p = m"
    and "\<forall>p \<in> set points'. length p = m" and "length points' = length points"
    and "\<forall>l \<in> set layers. \<forall>i \<in> set l. - int (length points) \<le> i \<and> i < int (length points)"
    and "idx \<in> \<Union> (set ` set layers)"
    and "py_index points idx = Inr p" and "py_index points' idx = Inr (map (\<lambda>f. k * f) p)"
    and "0 < k" and "0 < (\<Sum>f\<leftarrow>p. f ^ (if 3 < m then 2 else 1))"
  shows "\<exists>pc pc' u v w. palettize points layers n_layers zgap = Inr pc \<and>
           palettize points' layers n_layers zgap = Inr pc' \<and>
           pc idx = Some [u, v, w] \<and> pc' idx = Some [u, v, w]"
proof -
  define e :: nat where "e = (if 3 < m then 2 else 1)"
  have ne': "points' \<noteq> []" using assms(1,4) by auto
  have m: "length (hd points) = m" using assms(1,2) by simp
  have m': "length (hd points') = m" using ne' assms(3) by simp
  have valid': "\<forall>l \<in> set layers. \<forall>i \<in> set l.
      - int (length points') \<le> i \<and> i < int (length points')"
    using assms(4,5) by simp
  from palettize_total [OF assms(1,2,5)] obtain pc where
    pc: "palettize points layers n_layers zgap = Inr pc" by blast
  from palettize_total [OF ne' assms(3) valid'] obtain pc' where
    pc': "palettize points' layers n_layers zgap = Inr pc'" by blast
  have rw: "run_walk (radviz_uv (axes m)) (map (map (\<lambda>f. PyFloat (f ^ e))) points)
              layers n_layers zgap = Inr pc"
    using pc palettize_unfold [OF assms(1), of layers n_layers zgap] m by (simp add: e_def)
  have rw': "run_walk (radviz_uv (axes m)) (map (map (\<lambda>f. PyFloat (f ^ e))) points')
              layers n_layers zgap = Inr pc'"
    using pc' palettize_unfold [OF ne', of layers n_layers zgap] m' by (simp add: e_def)
  from last_at_exists [OF assms(6)] obtain j k' where la: "last_at layers j k' idx" by blast
  from run_walk_floats_entry [OF rw la] obtain q u v where
    q: "py_index points idx = Inr q" and
    uvq: "radviz_uv (axes m) (map PyFloat (map (\<lambda>f. f ^ e) q)) = Inr (u, v)" and
    en: "pc idx = Some [u, v, depth_spec (length points) layers n_layers zgap j k']"
    by blast
  from q assms(7) have "q = p" by simp
  with uvq have uv: "radviz_uv (axes m) (map PyFloat (map (\<lambda>f. f ^ e) p)) = Inr (u, v)"
    by simp
  from run_walk_floats_entry [OF rw' la] obtain q' u' v' where
    q': "py_index points' idx = Inr q'" and
    uvq': "radviz_uv (axes m) (map PyFloat (map (\<lambda>f. f ^ e) q')) = Inr (u', v')" and
    en': "pc' idx = Some [u', v', depth_spec (length points') layers n_layers zgap j k']"
    by blast
  from q' assms(8) have "q' = map (\<lambda>f. k * f) p" by simp
  with uvq' have uv':
    "radviz_uv (axes m) (map PyFloat (map (\<lambda>f. f ^ e) (map (\<lambda>f. k * f) p))) = Inr (u', v')"
    by simp
  have "length p = m" using py_index_in_set [OF assms(7)] assms(2) by simp
  from radviz_uv_scaled [OF this assms(9), of e] assms(10) uv uv'
  have "u' = u" "v' = v" by (simp_all add: e_def)
  with en en' assms(4) pc pc' show ?thesis by simp
qed

theorem palettize_scale_invariant_witness:
  "\<exists>pc pc' u v w. palettize [[1, 3], [0, 1]] [[0, 1]] 0 1 = Inr pc \<and>
           palettize [[2, 6], [0, 1]] [[0, 1]] 0 1 = Inr pc' \<and>
           pc 0 = Some [u, v, w] \<and> pc' 0 = Some [u, v, w]"
  using palettize_scale_invariant
    [of "[[1, 3], [0, 1]]" 2 "[[2, 6], [0, 1]]" "[[0, 1]]" 0 "[1, 3]" 2 0 1]
  by (simp add: py_index_def)

section \<open>Keys and depths of the returned mapping\<close>

lemma palettize_entry:
  assumes "palettize points layers nl zgap = Inr pc"
  shows "dom pc = \<Union> (set ` set layers)"
    and "last_at layers j k idx \<Longrightarrow>
         \<exists>u v. pc idx = Some [u, v, depth_spec (length points) layers nl zgap j k]"
proof -
  from assms have ne: "points \<noteq> []" by (auto simp: palettize_empty)
  from assms have rw: "run_walk (radviz_uv (axes (length (hd points))))
       (map (map (\<lambda>f. PyFloat (f ^ (if length (hd points) > 3 then 2 else 1)))) points)
       layers nl zgap = Inr pc"
    using palettize_unfold [OF ne, of layers nl zgap] by simp
  show "dom pc = \<Union> (set ` set layers)" by (rule run_walk_dom [OF rw])
  show "\<exists>u v. pc idx = Some [u, v, depth_spec (length points) layers nl zgap j k]"
    if "last_at layers j k idx"
    using run_walk_floats_entry [OF rw that] by blast
qed

lemma palettize_polar_entry:
  assumes "palettize_polar points layers nl zgap = Inr pc"
  shows "dom pc = \<Union> (set ` set layers)"
    and "last_at layers j k idx \<Longrightarrow>
         \<exists>u v. pc idx = Some [u, v, depth_spec (length points) layers nl zgap j k]"
proof -
  from assms have ne: "points \<noteq> []" by (auto simp: palettize_polar_empty)
  from assms have rw: "run_walk (polar_uv (axes (length (hd points))))
       (map (map (\<lambda>f. PyFloat ((1 - f) ^ (if length (hd points) > 3 then 3 else 2)))) points)
       layers nl zgap = Inr pc"
    using palettize_polar_unfold [OF ne, of layers nl zgap] by simp
  show "dom pc = \<Union> (set ` set layers)" by (rule run_walk_dom [OF rw])
  show "\<exists>u v. pc idx = Some [u, v, depth_spec (length points) layers nl zgap j k]"
    if "last_at layers j k idx"
    using run_walk_floats_entry [OF rw that] by blast
qed

lemma palettize_logistic_entry:
  assumes "palettize_logistic points layers nl zgap = Inr pc"
  shows "dom pc = \<Union> (set ` set layers)"
    and "last_at layers j k idx \<Longrightarrow>
         \<exists>u v. pc idx = Some [u, v, depth_spec (length points) layers nl zgap j k]"
proof -
  from assms have ne: "points \<noteq> []" by (auto simp: palettize_logistic_empty)
  from assms have rw: "run_walk (radviz_uv (axes (length (hd points))))
       (map (map (\<lambda>v. PyFloat (logistic_remap 15 v))) points) layers nl zgap = Inr pc"
    using palettize_logistic_unfold [OF ne, of layers nl zgap] by simp
  show "dom pc = \<Union> (set ` set layers)" by (rule run_walk_dom [OF rw])
  show "\<exists>u v. pc idx = Some [u, v, depth_spec (length points) layers nl zgap j k]"
    if "last_at layers j k idx"
    using run_walk_floats_entry [OF rw that] by blast
qed

lemma variant_entry:
  assumes "palettize points layers nl zgap = Inr pc \<or>
           palettize_polar points layers nl zgap = Inr pc \<or>
           palettize_logistic points layers nl zgap = Inr pc"
    and "last_at layers j k idx"
  shows "\<exists>u v. pc idx = Some [u, v, depth_spec (length points) layers nl zgap j k]"
  using assms(1)
proof (elim disjE)
  assume "palettize points layers nl zgap = Inr pc"
  from palettize_entry(2) [OF this assms(2)] show ?thesis .
next
  assume "palettize_polar points layers nl zgap = Inr pc"
  from palettize_polar_entry(2) [OF this assms(2)] show ?thesis .
next
  assume "palettize_logistic points layers nl zgap = Inr pc"
  from palettize_logistic_entry(2) [OF this assms(2)] show ?thesis .
qed

text \<open>
  C7. Whichever of the three variants returns a mapping, its keys are exactly the indices
  listed in the layers, and the entry of an index is the one written at the last place
  where the index is listed in walk order: its depth is the depth of that place.
\<close>

theorem palette_keys_and_last_write:
  "(palettize points layers n_layers zgap = Inr pc \<longrightarrow>
      dom pc = \<Union> (set ` set layers) \<and>
      (last_at layers j k idx \<longrightarrow>
         (\<exists>u v. pc idx = Some [u, v, depth_spec (length points) layers n_layers zgap j k]))) \<and>
   (palettize_polar points layers n_layers zgap = Inr pc' \<longrightarrow>
      dom pc' = \<Union> (set ` set layers) \<and>
      (last_at layers j k idx \<longrightarrow>
         (\<exists>u v. pc' idx = Some [u, v, depth_spec (length points) layers n_layers zgap j k]))) \<and>
   (palettize_logistic points layers n_layers zgap = Inr pc'' \<longrightarrow>
      dom pc'' = \<Union> (set ` set layers) \<and>
      (last_at layers j k idx \<longrightarrow>
         (\<exists>u v. pc'' idx = Some [u, v, depth_spec (length points) layers n_layers zgap j k])))"
proof (intro conjI impI)
  assume a: "palettize points layers n_layers zgap = Inr pc"
  show "dom pc = \<Union> (set ` set layers)" by (rule palettize_entry(1) [OF a])
  show "\<exists>u v. pc idx = Some [u, v, depth_spec (length points) layers n_layers zgap j k]"
    if "last_at layers j k idx" by (rule palettize_entry(2) [OF a that])
next
  assume a: "palettize_polar points layers n_layers zgap = Inr pc'"
  show "dom pc' = \<Union> (set ` set layers)" by (rule palettize_polar_entry(1) [OF a])
  show "\<exists>u v. pc' idx = Some [u, v, depth_spec (length points) layers n_layers zgap j k]"
    if "last_at layers j k idx" by (rule palettize_polar_entry(2) [OF a that])
next
  assume a: "palettize_logistic points layers n_layers zgap = Inr pc''"
  show "dom pc'' = \<Union> (set ` set layers)" by (rule palettize_logistic_entry(1) [OF a])
  show "\<exists>u v. pc'' idx = Some [u, v, depth_spec (length points) layers n_layers zgap j k]"
    if "last_at layers j k idx" by (rule palettize_logistic_entry(2) [OF a that])
qed

theorem palette_keys_and_last_write_witness:
  "(\<exists>pc u v. palettize [[1, 0], [0, 1]] [[0, 1], [0]] 0 1 = Inr pc \<and> dom pc = {0, 1} \<and>
              pc 0 = Some [u, v, - 1]) \<and>
   (\<exists>pc u v. palettize_polar [[1, 0], [0, 1]] [[0, 1], [0]] 0 1 = Inr pc \<and> dom pc = {0, 1} \<and>
              pc 0 = Some [u, v, - 1]) \<and>
   (\<exists>pc u v. palettize_logistic [[1, 0], [0, 1]] [[0, 1], [0]] 0 1 = Inr pc \<and>
              dom pc = {0, 1} \<and> pc 0 = Some [u, v, - 1])"
proof -
  obtain pc where pc: "palettize [[1, 0], [0, 1]] [[0, 1], [0]] 0 1 = Inr pc"
    using palettize_total [of "[[1, 0], [0, 1]]" 2 "[[0, 1], [0]]" 0 1] by auto
  obtain pc' where pc': "palettize_polar [[1, 0], [0, 1]] [[0, 1], [0]] 0 1 = Inr pc'"
    using palettize_polar_total [of "[[1, 0], [0, 1]]" 2 "[[0, 1], [0]]" 0 1] by auto
  obtain pc'' where pc'': "palettize_logistic [[1, 0], [0, 1]] [[0, 1], [0]] 0 1 = Inr pc''"
    using palettize_logistic_total [of "[[1, 0], [0, 1]]" 2 "[[0, 1], [0]]" 0 1] by auto
  have la: "last_at [[0, 1], [0]] 1 0 0" by (simp add: last_at_def)
  note w = palette_keys_and_last_write
    [where points = "[[1, 0], [0, 1]]" and layers = "[[0, 1], [0]]" and n_layers = 0
       and zgap = 1 and pc = pc and pc' = pc' and pc'' = pc'' and j = 1 and k = 0 and idx = 0]
  have "dom pc = {0, 1} \<and> (\<exists>u v. pc 0 = Some [u, v, - 1])"
    using w pc la by (auto simp: depth_spec_def)
  moreover have "dom pc' = {0, 1} \<and> (\<exists>u v. pc' 0 = Some [u, v, - 1])"
    using w pc' la by (auto simp: depth_spec_def)
  moreover have "dom pc'' = {0, 1} \<and> (\<exists>u v. pc'' 0 = Some [u, v, - 1])"
    using w pc'' la by (auto simp: depth_spec_def)
  ultimately show ?thesis using pc pc' pc'' by blast
qed

lemma disjoint_no_later:
  assumes "\<forall>a < length layers. \<forall>b < length layers. a \<noteq> b \<longrightarrow>
             set (layers ! a) \<inter> set (layers ! b) = {}"
    and "j < length layers" and "idx \<in> set (layers ! j)"
  shows "\<forall>l \<in> set (drop (Suc j) layers). idx \<notin> set l"
proof
  fix l assume "l \<in> set (drop (Suc j) layers)"
  then obtain i where i: "i < length (drop (Suc j) layers)" "l = drop (Suc j) layers ! i"
    by (auto simp: in_set_conv_nth)
  then have b: "Suc j + i < length layers" "l = layers ! (Suc j + i)" by simp_all
  with assms(1,2) have "set (layers ! j) \<inter> set l = {}" by simp
  with assms(3) show "idx \<notin> set l" by auto
qed

lemma depth_when_written:
  assumes "walk_layers proj pts use_wl ppl zgap st L1 = Inr st1"
    and "walk_layer proj pts use_wl ppl zgap st1 ys = Inr st2"
    and "point_step proj pts use_wl ppl zgap st2 idx = Inr st3"
    and "use_wl"
  shows "\<exists>u v. palette_coords st3 idx = Some [u, v, wl st - real (length L1) * zgap]"
proof -
  from walk_layers_frame [OF assms(1)] have "wl st1 = wl st - real (length L1) * zgap"
    by simp
  moreover from walk_layer_frame [OF assms(2)] have "wl st2 = wl st1" by simp
  moreover from point_step_Inr [OF assms(3)] obtain u v where
    "palette_coords st3 = (palette_coords st2)(idx \<mapsto> [u, v, if use_wl then wl st2 else wc st2])"
    by blast
  ultimately show ?thesis using assms(4) by simp
qed

text \<open>
  C2. When \<open>n_layers\<close> is 0 or at least the number of layers, a call of any of the three
  variants that returns gives every index listed in layer \<open>j\<close> (counted from 0) the
  depth \<open>- j * zgap\<close>. This holds of the returned mapping whenever the layers are disjoint,
  as the design requires of the caller, and more generally whenever the index is not
  listed again in a later layer; and it holds of what the walk writes when it reaches the
  listing, whatever the layers are: the step at a listing in layer \<open>j\<close>, taken in the
  state that the walk has after the layers before \<open>j\<close> and the listings before it in
  layer \<open>j\<close>, writes the depth \<open>- j * zgap\<close> (a later listing of the same index
  overwrites it).
\<close>

theorem layer_indexed_depth:
  assumes "palettize points layers n_layers zgap = Inr pc \<or>
           palettize_polar points layers n_layers zgap = Inr pc \<or>
           palettize_logistic points layers n_layers zgap = Inr pc"
    and "n_layers = 0 \<or> int (length layers) \<le> n_layers"
    and "j < length layers" and "idx \<in> set (layers ! j)"
  shows "((\<forall>a < length layers. \<forall>b < length layers. a \<noteq> b \<longrightarrow>
             set (layers ! a) \<inter> set (layers ! b) = {}) \<longrightarrow>
          (\<exists>u v. pc idx = Some [u, v, - real j * zgap])) \<and>
         ((\<forall>l \<in> set (drop (Suc j) layers). idx \<notin> set l) \<longrightarrow>
          (\<exists>u v. pc idx = Some [u, v, - real j * zgap])) \<and>
         (walk_layers proj points' (n_layers = 0 \<or> int (length layers) \<le> n_layers) ppl zgap
            init_state (take j layers) = Inr st1 \<and>
          walk_layer proj points' (n_layers = 0 \<or> int (length layers) \<le> n_layers) ppl zgap
            st1 (take k (layers ! j)) = Inr st2 \<and>
          point_step proj points' (n_layers = 0 \<or> int (length layers) \<le> n_layers) ppl zgap
            st2 idx = Inr st3 \<longrightarrow>
          (\<exists>u v. palette_coords st3 idx = Some [u, v, - real j * zgap]))"
proof -
  have later: "\<exists>u v. pc idx = Some [u, v, - real j * zgap]"
    if "\<forall>l \<in> set (drop (Suc j) layers). idx \<notin> set l"
  proof -
    from last_in_layer_at [OF assms(3,4) that] obtain k where "last_at layers j k idx" by blast
    from variant_entry [OF assms(1) this] assms(2) show ?thesis
      by (simp add: depth_spec_def)
  qed
  have disjoint: "\<exists>u v. pc idx = Some [u, v, - real j * zgap]"
    if "\<forall>a < length layers. \<forall>b < length layers. a \<noteq> b \<longrightarrow>
             set (layers ! a) \<inter> set (layers ! b) = {}"
    using later disjoint_no_later [OF that assms(3,4)] by blast
  have written: "\<exists>u v. palette_coords st3 idx = Some [u, v, - real j * zgap]"
    if "walk_layers proj points' (n_layers = 0 \<or> int (length layers) \<le> n_layers) ppl zgap
            init_state (take j layers) = Inr st1 \<and>
        walk_layer proj points' (n_layers = 0 \<or> int (length layers) \<le> n_layers) ppl zgap
            st1 (take k (layers ! j)) = Inr st2 \<and>
        point_step proj points' (n_layers = 0 \<or> int (length layers) \<le> n_layers) ppl zgap
            st2 idx = Inr st3"
  proof -
    have "length (take j layers) = j" using assms(3) by simp
    with depth_when_written [of proj points' _ ppl zgap init_state "take j layers" st1
        "take k (layers ! j)" st2 idx st3] that assms(2)
    show ?thesis by (simp add: init_state_def)
  qed
  from disjoint later written show ?thesis by blast
qed

theorem layer_indexed_depth_witness:
  "(\<exists>pc u0 v0 u1 v1 u2 v2 u3 v3.
      palettize [[1, 0], [0, 1], [1, 1], [2, 1]] [[0, 1], [2, 3]] 0 1 = Inr pc \<and>
      pc 0 = Some [u0, v0, 0] \<and> pc 1 = Some [u1, v1, 0] \<and>
      pc 2 = Some [u2, v2, - 1] \<and> pc 3 = Some [u3, v3, - 1]) \<and>
   (\<exists>pc u0 v0 u1 v1 u2 v2 u3 v3.
      palettize [[1, 0], [0, 1], [1, 1], [2, 1]] [[0, 1, 2, 3]] 2 1 = Inr pc \<and>
      pc 0 = Some [u0, v0, 0] \<and> pc 1 = Some [u1, v1, 0] \<and>
      pc 2 = Some [u2, v2, 0] \<and> pc 3 = Some [u3, v3, 0]) \<and>
   (\<exists>pc u v st3 u' v'.
      palettize [[1, 0]] [[0], [0]] 0 1 = Inr pc \<and> pc 0 = Some [u, v, - 1] \<and>
      point_step (radviz_uv (axes 2)) [[PyFloat 1, PyFloat 0]] True None 1 init_state 0 =
        Inr st3 \<and>
      palette_coords st3 0 = Some [u', v', 0])"
proof -
  obtain pc where pc:
    "palettize [[1, 0], [0, 1], [1, 1], [2, 1]] [[0, 1], [2, 3]] 0 1 = Inr pc"
    using palettize_total [of "[[1, 0], [0, 1], [1, 1], [2, 1]]" 2 "[[0, 1], [2, 3]]" 0 1]
    by auto
  have d: "\<forall>a < length [[0, 1], [2, 3::int]]. \<forall>b < length [[0, 1], [2, 3::int]]. a \<noteq> b \<longrightarrow>
             set ([[0, 1], [2, 3::int]] ! a) \<inter> set ([[0, 1], [2, 3]] ! b) = {}"
    by (auto simp: less_Suc_eq)
  note a = layer_indexed_depth
    [where points = "[[1, 0], [0, 1], [1, 1], [2, 1]]" and layers = "[[0, 1], [2, 3]]"
       and n_layers = 0 and zgap = 1 and pc = pc, THEN conjunct1, THEN mp, OF _ _ _ _ d]
  have "\<exists>u v. pc 0 = Some [u, v, 0]" using a [of 0 0] pc by simp
  moreover have "\<exists>u v. pc 1 = Some [u, v, 0]" using a [of 0 1] pc by simp
  moreover have "\<exists>u v. pc 2 = Some [u, v, - 1]" using a [of 1 2] pc by simp
  moreover have "\<exists>u v. pc 3 = Some [u, v, - 1]" using a [of 1 3] pc by simp
  ultimately have first: "\<exists>pc u0 v0 u1 v1 u2 v2 u3 v3.
      palettize [[1, 0], [0, 1], [1, 1], [2, 1]] [[0, 1], [2, 3]] 0 1 = Inr pc \<and>
      pc 0 = Some [u0, v0, 0] \<and> pc 1 = Some [u1, v1, 0] \<and>
      pc 2 = Some [u2, v2, - 1] \<and> pc 3 = Some [u3, v3, - 1]"
    using pc by blast
  obtain pc' where pc':
    "palettize [[1, 0], [0, 1], [1, 1], [2, 1]] [[0, 1, 2, 3]] 2 1 = Inr pc'"
    using palettize_total [of "[[1, 0], [0, 1], [1, 1], [2, 1]]" 2 "[[0, 1, 2, 3]]" 2 1]
    by auto
  have d': "\<forall>a < length [[0, 1, 2, 3::int]]. \<forall>b < length [[0, 1, 2, 3::int]]. a \<noteq> b \<longrightarrow>
             set ([[0, 1, 2, 3::int]] ! a) \<inter> set ([[0, 1, 2, 3]] ! b) = {}"
    by simp
  note b = layer_indexed_depth
    [where points = "[[1, 0], [0, 1], [1, 1], [2, 1]]" and layers = "[[0, 1, 2, 3]]"
       and n_layers = 2 and zgap = 1 and pc = pc' and j = 0,
       THEN conjunct1, THEN mp, OF _ _ _ _ d']
  have "\<exists>u v. pc' 0 = Some [u, v, 0]" using b [of 0] pc' by simp
  moreover have "\<exists>u v. pc' 1 = Some [u, v, 0]" using b [of 1] pc' by simp
  moreover have "\<exists>u v. pc' 2 = Some [u, v, 0]" using b [of 2] pc' by simp
  moreover have "\<exists>u v. pc' 3 = Some [u, v, 0]" using b [of 3] pc' by simp
  ultimately have second: "\<exists>pc u0 v0 u1 v1 u2 v2 u3 v3.
      palettize [[1, 0], [0, 1], [1, 1], [2, 1]] [[0, 1, 2, 3]] 2 1 = Inr pc \<and>
      pc 0 = Some [u0, v0, 0] \<and> pc 1 = Some [u1, v1, 0] \<and>
      pc 2 = Some [u2, v2, 0] \<and> pc 3 = Some [u3, v3, 0]"
    using pc' by blast
  obtain pc'' where pc'': "palettize [[1, 0]] [[0], [0]] 0 1 = Inr pc''"
    using palettize_total [of "[[1, 0]]" 2 "[[0], [0]]" 0 1] by auto
  have uv: "radviz_uv (axes 2) [PyFloat 1, PyFloat 0] = Inr (1, 0)"
    using radviz_uv_axes [of "[1, 0]" 2] by (simp add: eval_nat_numeral lessThan_Suc)
  obtain st3 where st3:
    "point_step (radviz_uv (axes 2)) [[PyFloat 1, PyFloat 0]] True None 1 init_state 0 = Inr st3"
    using point_step_total [of "[[PyFloat 1, PyFloat 0]]" 0 "[PyFloat 1, PyFloat 0]"
        "radviz_uv (axes 2)" "(1, 0)" True None 1 init_state] uv
    by (auto simp: py_index_def)
  note c = layer_indexed_depth
    [where points = "[[1, 0]]" and layers = "[[0], [0]]" and n_layers = 0 and zgap = 1
       and pc = pc'' and idx = 0]
  have "\<exists>u v. pc'' 0 = Some [u, v, - 1]"
    using c [where j = 1, THEN conjunct2, THEN conjunct1] pc'' by simp
  moreover have "\<exists>u v. palette_coords st3 0 = Some [u, v, 0]"
    using c [where j = 0 and k = 0 and proj = "radviz_uv (axes 2)"
               and points' = "[[PyFloat 1, PyFloat 0]]" and ppl = None
               and ?st1.0 = init_state and ?st2.0 = init_state and ?st3.0 = st3,
             THEN conjunct2, THEN conjunct2] pc'' st3
    by simp
  ultimately have third: "\<exists>pc u v st3 u' v'.
      palettize [[1, 0]] [[0], [0]] 0 1 = Inr pc \<and> pc 0 = Some [u, v, - 1] \<and>
      point_step (radviz_uv (axes 2)) [[PyFloat 1, PyFloat 0]] True None 1 init_state 0 =
        Inr st3 \<and>
      palette_coords st3 0 = Some [u', v', 0]"
    using pc'' st3 by blast
  from first second third show ?thesis by blast
qed

text \<open>
  C3. When \<open>n_layers\<close> is positive and below the number of layers, the threshold is the
  quotient of the number of points by \<open>n_layers\<close>, and the entry of an index has the
  depth that the count-indexed track has when the last listing of the index is reached:
  the value of \<open>wc\<close> once all the points before it in walk order, counted across the
  layers, have been processed.
\<close>

theorem count_indexed_depth:
  assumes "palettize points layers n_layers zgap = Inr pc \<or>
           palettize_polar points layers n_layers zgap = Inr pc \<or>
           palettize_logistic points layers n_layers zgap = Inr pc"
    and "0 < n_layers" and "n_layers < int (length layers)"
    and "last_at layers j k idx"
  shows "points_per_layer (length points) n_layers =
           Some (real (length points) / real_of_int n_layers) \<and>
         (\<exists>u v. pc idx =
            Some [u, v, fst (wc_track_spec (Some (real (length points) / real_of_int n_layers)) zgap
                              (length (concat (take j layers)) + k))])"
proof -
  have ppl: "points_per_layer (length points) n_layers =
           Some (real (length points) / real_of_int n_layers)"
    using assms(2) by (simp add: points_per_layer_def)
  from variant_entry [OF assms(1,4)] assms(2,3) ppl show ?thesis
    by (simp add: depth_spec_def)
qed

theorem count_indexed_depth_witness:
  "\<exists>pc u0 v0 u1 v1 u2 v2 u3 v3.
      palettize [[1, 0], [0, 1], [1, 1], [2, 1]] [[0], [1], [2, 3]] 2 1 = Inr pc \<and>
      pc 0 = Some [u0, v0, 0] \<and> pc 1 = Some [u1, v1, 0] \<and>
      pc 2 = Some [u2, v2, - 1] \<and> pc 3 = Some [u3, v3, - 1]"
proof -
  obtain pc where pc:
    "palettize [[1, 0], [0, 1], [1, 1], [2, 1]] [[0], [1], [2, 3]] 2 1 = Inr pc"
    using palettize_total [of "[[1, 0], [0, 1], [1, 1], [2, 1]]" 2 "[[0], [1], [2, 3]]" 2 1]
    by auto
  note a = count_indexed_depth
    [where points = "[[1, 0], [0, 1], [1, 1], [2, 1]]" and layers = "[[0], [1], [2, 3]]"
       and n_layers = 2 and zgap = 1 and pc = pc]
  have "\<exists>u v. pc 0 = Some [u, v, 0]"
    using a [of 0 0 0] pc by (simp add: last_at_def)
  moreover have "\<exists>u v. pc 1 = Some [u, v, 0]"
    using a [of 1 0 1] pc by (simp add: last_at_def)
  moreover have "\<exists>u v. pc 2 = Some [u, v, - 1]"
    using a [of 2 0 2] pc by (simp add: last_at_def eval_nat_numeral)
  moreover have "\<exists>u v. pc 3 = Some [u, v, - 1]"
    using a [of 2 1 3] pc by (simp add: last_at_def eval_nat_numeral)
  ultimately show ?thesis using pc by blast
qed

section \<open>Scaling a negative coordinate\<close>







section \<open>The caller's lists in the store\<close>

lemma traverse_Cons_drop:
  "i < length xs \<Longrightarrow> traverse g (drop i xs) =
     (case g (xs ! i) of Inl e \<Rightarrow> Inl e
      | Inr y \<Rightarrow> (case traverse g (drop (Suc i) xs) of Inl e \<Rightarrow> Inl e | Inr ys \<Rightarrow> Inr (y # ys)))"
  by (simp add: Cons_nth_drop_Suc [symmetric])

lemma append_points_run:
  assumes "objs h points = Refs ps"
    and "list_all2 (\<lambda>p pt. p < free h \<and> objs h p = Floats pt) ps pts"
    and "points < free h" and "acc < free h" and "acc \<noteq> points"
    and "objs h acc = Refs rs"
  shows "\<exists>h' r. append_points g points acc i h = Some (h', r) \<and> free h \<le> free h' \<and>
           (\<forall>a < free h. a \<noteq> acc \<longrightarrow> objs h' a = objs h a) \<and>
           (case traverse g (drop i pts) of
              Inl e \<Rightarrow> r = Inl e
            | Inr news \<Rightarrow>
                r = Inr () \<and>
                (\<exists>as. objs h' acc = Refs (rs @ as) \<and>
                      list_all2 (\<lambda>a new. free h \<le> a \<and> a < free h' \<and> objs h' a = new) as news))"
  using assms
proof (induction "length ps - i" arbitrary: i h rs)
  case 0
  then have i: "\<not> i < length ps" by simp
  have "length pts = length ps" using "0.prems"(2) by (simp add: list_all2_lengthD)
  with i have "drop i pts = []" by simp
  then show ?case
    using i "0.prems"(1,6) by (subst append_points.simps) simp
next
  case (Suc n)
  then have i: "i < length ps" by simp
  have len: "length pts = length ps" using Suc.prems(2) by (simp add: list_all2_lengthD)
  from Suc.prems(2) i have pi: "ps ! i < free h" "objs h (ps ! i) = Floats (pts ! i)"
    by (simp_all add: list_all2_conv_all_nth)
  show ?case
  proof (cases "g (pts ! i)")
    case (Inl e)
    then have "append_points g points acc i h = Some (h, Inl e)"
      using i pi Suc.prems(1) by (subst append_points.simps) simp
    moreover have "traverse g (drop i pts) = Inl e"
      using Inl i len by (simp add: traverse_Cons_drop)
    ultimately show ?thesis by simp
  next
    case (Inr new)
    define h1 where "h1 = h\<lparr>objs := (objs h)(free h := new), free := Suc (free h)\<rparr>"
    define h2 where "h2 = h1\<lparr>objs := (objs h1)(acc := Refs (rs @ [free h]))\<rparr>"
    have al: "alloc h new = (h1, free h)" by (simp add: alloc_def h1_def)
    have "objs h1 acc = Refs rs" using Suc.prems(4,6) by (simp add: h1_def)
    then have ap: "list_append h1 acc (free h) = Inr h2" by (simp add: list_append_def h2_def)
    have unf: "append_points g points acc i h = append_points g points acc (Suc i) h2"
      using i pi Suc.prems(1) Inr al ap by (subst append_points.simps) simp
    have f2: "free h2 = Suc (free h)" by (simp add: h2_def h1_def)
    have o2: "objs h2 a = objs h a" if "a < free h" "a \<noteq> acc" for a
      using that by (simp add: h2_def h1_def)
    have p1: "objs h2 points = Refs ps" using Suc.prems(1,3,5) by (simp add: o2)
    have p2: "list_all2 (\<lambda>p pt. p < free h2 \<and> objs h2 p = Floats pt) ps pts"
    proof (rule list_all2_mono [OF Suc.prems(2)])
      fix p pt assume a: "p < free h \<and> objs h p = Floats pt"
      then have "p \<noteq> acc" using Suc.prems(6) by auto
      with a show "p < free h2 \<and> objs h2 p = Floats pt" by (simp add: f2 o2)
    qed
    have p3: "points < free h2" "acc < free h2" using Suc.prems(3,4) by (simp_all add: f2)
    have p6: "objs h2 acc = Refs (rs @ [free h])" by (simp add: h2_def)
    have n: "n = length ps - Suc i" using Suc.hyps(2) by simp
    from Suc.hyps(1) [OF n p1 p2 p3 Suc.prems(5) p6] obtain h' r where
      run: "append_points g points acc (Suc i) h2 = Some (h', r)" and
      fr: "free h2 \<le> free h'" and
      frame: "\<forall>a < free h2. a \<noteq> acc \<longrightarrow> objs h' a = objs h2 a" and
      res: "(case traverse g (drop (Suc i) pts) of
              Inl e \<Rightarrow> r = Inl e
            | Inr news \<Rightarrow>
                r = Inr () \<and>
                (\<exists>as. objs h' acc = Refs ((rs @ [free h]) @ as) \<and>
                      list_all2 (\<lambda>a new. free h2 \<le> a \<and> a < free h' \<and> objs h' a = new) as news))"
      by blast
    have frame': "\<forall>a < free h. a \<noteq> acc \<longrightarrow> objs h' a = objs h a"
      using frame o2 by (simp add: f2)
    have new: "objs h' (free h) = new"
      using frame Suc.prems(4) by (simp add: f2 h2_def h1_def)
    have res': "(case traverse g (drop i pts) of
              Inl e \<Rightarrow> r = Inl e
            | Inr news \<Rightarrow>
                r = Inr () \<and>
                (\<exists>as. objs h' acc = Refs (rs @ as) \<and>
                      list_all2 (\<lambda>a new. free h \<le> a \<and> a < free h' \<and> objs h' a = new) as news))"
    proof (cases "traverse g (drop (Suc i) pts)")
      case (Inl e)
      then show ?thesis using res Inr i len by (simp add: traverse_Cons_drop)
    next
      case tr: (Inr news)
      with res obtain as where r: "r = Inr ()" and
        as: "objs h' acc = Refs ((rs @ [free h]) @ as)"
          "list_all2 (\<lambda>a new. free h2 \<le> a \<and> a < free h' \<and> objs h' a = new) as news"
        by auto
      have "list_all2 (\<lambda>a new. free h \<le> a \<and> a < free h' \<and> objs h' a = new) as news"
        by (rule list_all2_mono [OF as(2)]) (simp add: f2)
      then have "list_all2 (\<lambda>a new. free h \<le> a \<and> a < free h' \<and> objs h' a = new)
                   (free h # as) (new # news)"
        using new fr by (simp add: f2)
      moreover have "objs h' acc = Refs (rs @ free h # as)" using as(1) by simp
      moreover have "traverse g (drop i pts) = Inr (new # news)"
        using tr Inr i len by (simp add: traverse_Cons_drop)
      ultimately show ?thesis using r by auto
    qed
    from run unf fr frame' res' show ?thesis by (simp add: f2)
  qed
qed

lemma points_at_Refs:
  assumes "points_at h a pts"
  obtains ps where "a < free h" and "objs h a = Refs ps"
    and "list_all2 (\<lambda>p pt. p < free h \<and> objs h p = Floats pt) ps pts"
  using assms by (auto simp: points_at_def split: obj.splits)

lemma points_at_extend:
  assumes "points_at h a pts" and "free h \<le> free h'"
    and "\<forall>b < free h. objs h' b = objs h b"
  shows "points_at h' a pts"
proof -
  from assms(1) obtain ps where a: "a < free h" "objs h a = Refs ps"
    "list_all2 (\<lambda>p pt. p < free h \<and> objs h p = Floats pt) ps pts"
    by (rule points_at_Refs)
  have "list_all2 (\<lambda>p pt. p < free h' \<and> objs h' p = Floats pt) ps pts"
    by (rule list_all2_mono [OF a(3)]) (use assms(2,3) in auto)
  then show ?thesis using a(1,2) assms(2,3) by (simp add: points_at_def)
qed

lemma build_points_run:
  assumes "points_at h points pts"
  shows "\<exists>h' r. build_points g h points = Some (h', r) \<and> free h \<le> free h' \<and>
           (\<forall>a < free h. objs h' a = objs h a) \<and>
           (case traverse g pts of
              Inl e \<Rightarrow> r = Inl e
            | Inr news \<Rightarrow>
                (\<exists>acc as. r = Inr acc \<and> free h \<le> acc \<and> acc < free h' \<and>
                   objs h' acc = Refs as \<and>
                   list_all2 (\<lambda>a new. free h \<le> a \<and> a < free h' \<and> objs h' a = new) as news))"
proof -
  from assms obtain ps where a: "points < free h" "objs h points = Refs ps"
    "list_all2 (\<lambda>p pt. p < free h \<and> objs h p = Floats pt) ps pts"
    by (rule points_at_Refs)
  define h1 where "h1 = h\<lparr>objs := (objs h)(free h := Refs []), free := Suc (free h)\<rparr>"
  have al: "alloc h (Refs []) = (h1, free h)" by (simp add: alloc_def h1_def)
  have f1: "free h1 = Suc (free h)" by (simp add: h1_def)
  have o1: "objs h1 b = objs h b" if "b < free h" for b using that by (simp add: h1_def)
  have q1: "objs h1 points = Refs ps" using a(1,2) by (simp add: o1)
  have q2: "list_all2 (\<lambda>p pt. p < free h1 \<and> objs h1 p = Floats pt) ps pts"
    by (rule list_all2_mono [OF a(3)]) (simp add: f1 o1)
  have q3: "points < free h1" "free h < free h1" "free h \<noteq> points"
    using a(1) by (simp_all add: f1)
  have q6: "objs h1 (free h) = Refs []" by (simp add: h1_def)
  have "\<exists>h' r. append_points g points (free h) 0 h1 = Some (h', r) \<and> free h1 \<le> free h' \<and>
           (\<forall>a < free h1. a \<noteq> free h \<longrightarrow> objs h' a = objs h1 a) \<and>
           (case traverse g pts of
              Inl e \<Rightarrow> r = Inl e
            | Inr news \<Rightarrow>
                r = Inr () \<and>
                (\<exists>as. objs h' (free h) = Refs as \<and>
                      list_all2 (\<lambda>a new. free h1 \<le> a \<and> a < free h' \<and> objs h' a = new) as news))"
    using append_points_run [OF q1 q2 q3 q6, of g 0] by (simp cong: sum.case_cong)
  then obtain h' r where
    run: "append_points g points (free h) 0 h1 = Some (h', r)" and
    fr: "free h1 \<le> free h'" and
    frame: "\<forall>a < free h1. a \<noteq> free h \<longrightarrow> objs h' a = objs h1 a" and
    res: "(case traverse g pts of
              Inl e \<Rightarrow> r = Inl e
            | Inr news \<Rightarrow>
                r = Inr () \<and>
                (\<exists>as. objs h' (free h) = Refs as \<and>
                      list_all2 (\<lambda>a new. free h1 \<le> a \<and> a < free h' \<and> objs h' a = new) as news))"
    by blast
  have frame': "\<forall>a < free h. objs h' a = objs h a" using frame o1 by (simp add: f1)
  have fr': "free h \<le> free h'" "free h < free h'" using fr by (simp_all add: f1)
  show ?thesis
  proof (cases "traverse g pts")
    case (Inl e)
    with res have "r = Inl e" by simp
    then have "build_points g h points = Some (h', Inl e)"
      using run al by (simp add: build_points_def)
    with Inl fr' frame' show ?thesis by simp
  next
    case (Inr news)
    with res obtain as where r: "r = Inr ()" and
      as: "objs h' (free h) = Refs as"
        "list_all2 (\<lambda>a new. free h1 \<le> a \<and> a < free h' \<and> objs h' a = new) as news"
      by auto
    have "list_all2 (\<lambda>a new. free h \<le> a \<and> a < free h' \<and> objs h' a = new) as news"
      by (rule list_all2_mono [OF as(2)]) (simp add: f1)
    moreover have "build_points g h points = Some (h', Inr (free h))"
      using run al r by (simp add: build_points_def)
    ultimately show ?thesis using Inr fr' frame' as(1) by auto
  qed
qed

lemma traverse_Inr_map: "traverse (\<lambda>x. Inr (f x)) xs = Inr (map f xs)"
  by (rule traverse_map) simp

lemma floats_built:
  assumes "list_all2 (\<lambda>a new. free h \<le> a \<and> a < free h' \<and> objs h' a = new) as
             (map (\<lambda>p. Floats (f p)) pts)"
    and "objs h' acc = Refs as" and "acc < free h'"
  shows "points_at h' acc (map f pts)"
proof -
  have "list_all2 (\<lambda>p pt. p < free h' \<and> objs h' p = Floats pt) as (map f pts)"
    using assms(1) by (simp add: list_all2_conv_all_nth)
  then show ?thesis using assms(2,3) by (simp add: points_at_def)
qed

lemma reverse_normalize_st_run:
  assumes "points_at h points pts"
  shows "\<exists>h' a. reverse_normalize_st h points = Some (h', Inr a) \<and> free h \<le> a \<and>
           free h \<le> free h' \<and> (\<forall>b < free h. objs h' b = objs h b) \<and>
           points_at h' a (reverse_normalize pts)"
proof -
  from build_points_run [OF assms, of "\<lambda>point. Inr (Floats (map (\<lambda>f. 1 - f) point))"]
  obtain h' acc as where
    "reverse_normalize_st h points = Some (h', Inr acc)" "free h \<le> free h'"
    "\<forall>b < free h. objs h' b = objs h b" "free h \<le> acc" "acc < free h'"
    "objs h' acc = Refs as"
    "list_all2 (\<lambda>a new. free h \<le> a \<and> a < free h' \<and> objs h' a = new) as
       (map (\<lambda>p. Floats (map (\<lambda>f. 1 - f) p)) pts)"
    by (auto simp: traverse_Inr_map reverse_normalize_st_def)
  moreover from floats_built [OF this(7,6,5)]
  have "points_at h' acc (reverse_normalize pts)" by (simp add: reverse_normalize_def)
  ultimately show ?thesis by blast
qed

lemma logistic_map_st_run:
  assumes "points_at h points pts"
  shows "\<exists>h' a. logistic_map_st h points A = Some (h', Inr a) \<and> free h \<le> a \<and>
           free h \<le> free h' \<and> (\<forall>b < free h. objs h' b = objs h b) \<and>
           points_at h' a (logistic_map pts A)"
proof -
  from build_points_run [OF assms, of "\<lambda>vec. Inr (Floats (map (\<lambda>v. logistic_remap A v) vec))"]
  obtain h' acc as where
    "logistic_map_st h points A = Some (h', Inr acc)" "free h \<le> free h'"
    "\<forall>b < free h. objs h' b = objs h b" "free h \<le> acc" "acc < free h'"
    "objs h' acc = Refs as"
    "list_all2 (\<lambda>a new. free h \<le> a \<and> a < free h' \<and> objs h' a = new) as
       (map (\<lambda>p. Floats (map (\<lambda>v. logistic_remap A v) p)) pts)"
    by (auto simp: traverse_Inr_map logistic_map_st_def)
  moreover from floats_built [OF this(7,6,5)]
  have "points_at h' acc (logistic_map pts A)" by (simp add: logistic_map_def)
  ultimately show ?thesis by blast
qed

lemma traverse_wrap:
  "traverse (\<lambda>x. case g x of Inl e \<Rightarrow> Inl e | Inr y \<Rightarrow> Inr (c y)) xs =
     (case traverse g xs of Inl e \<Rightarrow> Inl e | Inr ys \<Rightarrow> Inr (map c ys))"
  by (induction xs) (auto split: sum.splits)

lemma nums_built:
  assumes "list_all2 (\<lambda>a new. free h \<le> a \<and> a < free h' \<and> objs h' a = new) as (map Nums ps)"
    and "objs h' acc = Refs as"
  shows "nums_at h' acc = Inr ps"
proof -
  have len: "length as = length ps" using assms(1) by (simp add: list_all2_lengthD)
  have nth: "objs h' (as ! i) = Nums (ps ! i)" if "i < length as" for i
    using assms(1) that by (simp add: list_all2_conv_all_nth)
  have "traverse (\<lambda>p. case objs h' p of Floats fs \<Rightarrow> Inr (map PyFloat fs)
                      | Nums ns \<Rightarrow> Inr ns | Refs rs \<Rightarrow> Inl TypeError) as
      = Inr (map (\<lambda>p. case objs h' p of Nums ns \<Rightarrow> ns | _ \<Rightarrow> []) as)"
    by (rule traverse_map) (auto simp: in_set_conv_nth nth)
  moreover have "map (\<lambda>p. case objs h' p of Nums ns \<Rightarrow> ns | _ \<Rightarrow> []) as = ps"
    by (rule nth_equalityI) (simp_all add: len nth)
  ultimately show ?thesis using assms(2) by (simp add: nums_at_def)
qed

lemma scale_st_run:
  assumes "points_at h points pts"
  shows "\<exists>h' r. scale_st h points factor = Some (h', r) \<and> free h \<le> free h' \<and>
           (\<forall>b < free h. objs h' b = objs h b) \<and>
           (case scale pts factor of
              Inl e \<Rightarrow> r = Inl e
            | Inr ps \<Rightarrow> (\<exists>a. r = Inr a \<and> free h \<le> a \<and> nums_at h' a = Inr ps))"
proof -
  let ?g = "\<lambda>point. case traverse (\<lambda>f. float_pow f factor) point of
                   Inl e \<Rightarrow> Inl e | Inr ns \<Rightarrow> Inr (Nums ns)"
  have tr: "traverse ?g pts =
     (case scale pts factor of Inl e \<Rightarrow> Inl e | Inr ps \<Rightarrow> Inr (map Nums ps))"
    unfolding scale_def by (rule traverse_wrap)
  from build_points_run [OF assms, of ?g] obtain h' r where
    run: "scale_st h points factor = Some (h', r)" and fr: "free h \<le> free h'" and
    frame: "\<forall>b < free h. objs h' b = objs h b" and
    res: "(case traverse ?g pts of
              Inl e \<Rightarrow> r = Inl e
            | Inr news \<Rightarrow>
                (\<exists>acc as. r = Inr acc \<and> free h \<le> acc \<and> acc < free h' \<and>
                   objs h' acc = Refs as \<and>
                   list_all2 (\<lambda>a new. free h \<le> a \<and> a < free h' \<and> objs h' a = new) as news))"
    unfolding scale_st_def by blast
  have "(case scale pts factor of
              Inl e \<Rightarrow> r = Inl e
            | Inr ps \<Rightarrow> (\<exists>a. r = Inr a \<and> free h \<le> a \<and> nums_at h' a = Inr ps))"
  proof (cases "scale pts factor")
    case (Inl e)
    with res tr show ?thesis by simp
  next
    case (Inr ps)
    with res tr obtain acc as where "r = Inr acc" "free h \<le> acc" "objs h' acc = Refs as"
      "list_all2 (\<lambda>a new. free h \<le> a \<and> a < free h' \<and> objs h' a = new) as (map Nums ps)"
      by auto
    with nums_built [OF this(4,3)] Inr show ?thesis by simp
  qed
  with run fr frame show ?thesis by blast
qed

lemma copy_st_run:
  assumes "points_at h points pts"
  shows "\<exists>h' a. copy_st h points = (h', a) \<and> free h \<le> a \<and> free h \<le> free h' \<and>
           (\<forall>b < free h. objs h' b = objs h b) \<and> points_at h' a pts"
proof -
  from assms obtain ps where a: "points < free h" "objs h points = Refs ps"
    "list_all2 (\<lambda>p pt. p < free h \<and> objs h p = Floats pt) ps pts"
    by (rule points_at_Refs)
  define h' where "h' = h\<lparr>objs := (objs h)(free h := Refs ps), free := Suc (free h)\<rparr>"
  have c: "copy_st h points = (h', free h)" by (simp add: copy_st_def alloc_def h'_def a(2))
  have "list_all2 (\<lambda>p pt. p < free h' \<and> objs h' p = Floats pt) ps pts"
    by (rule list_all2_mono [OF a(3)]) (auto simp: h'_def)
  then have "points_at h' (free h) pts" by (simp add: points_at_def h'_def)
  moreover have "\<forall>b < free h. objs h' b = objs h b" by (simp add: h'_def)
  moreover have "free h \<le> free h'" by (simp add: h'_def)
  ultimately show ?thesis using c by blast
qed

lemma first_len_points:
  assumes "points_at h a pts"
  shows "first_len h a = (case py_index pts 0 of Inl e \<Rightarrow> Inl e | Inr p0 \<Rightarrow> Inr (length p0))"
proof -
  from assms obtain ps where a: "objs h a = Refs ps"
    "list_all2 (\<lambda>p pt. p < free h \<and> objs h p = Floats pt) ps pts"
    by (rule points_at_Refs)
  show ?thesis
  proof (cases pts)
    case Nil
    with a show ?thesis by (simp add: first_len_def py_index_def)
  next
    case (Cons p0 rest)
    with a(2) obtain q qs where "ps = q # qs" "objs h q = Floats p0"
      by (auto simp: list_all2_Cons2)
    with a(1) Cons show ?thesis by (simp add: first_len_def py_index_def)
  qed
qed

lemma nums_at_points:
  assumes "points_at h a pts"
  shows "nums_at h a = Inr (map (map PyFloat) pts)"
proof -
  from assms obtain ps where a: "objs h a = Refs ps"
    "list_all2 (\<lambda>p pt. p < free h \<and> objs h p = Floats pt) ps pts"
    by (rule points_at_Refs)
  have len: "length ps = length pts" using a(2) by (simp add: list_all2_lengthD)
  have nth: "objs h (ps ! i) = Floats (pts ! i)" if "i < length ps" for i
    using a(2) that by (simp add: list_all2_conv_all_nth)
  have "traverse (\<lambda>p. case objs h p of Floats fs \<Rightarrow> Inr (map PyFloat fs)
                      | Nums ns \<Rightarrow> Inr ns | Refs rs \<Rightarrow> Inl TypeError) ps
      = Inr (map (\<lambda>p. case objs h p of Floats fs \<Rightarrow> map PyFloat fs | _ \<Rightarrow> []) ps)"
    by (rule traverse_map) (auto simp: in_set_conv_nth nth)
  moreover have "map (\<lambda>p. case objs h p of Floats fs \<Rightarrow> map PyFloat fs | _ \<Rightarrow> []) ps
               = map (map PyFloat) pts"
    by (rule nth_equalityI) (simp_all add: len nth)
  ultimately show ?thesis using a(1) by (simp add: nums_at_def)
qed

lemma palettize_st_run:
  assumes "points_at h points pts"
  shows "\<exists>h'. palettize_st h points layers nl zgap = Some (h', palettize pts layers nl zgap) \<and>
           free h \<le> free h' \<and> (\<forall>b < free h. objs h' b = objs h b)"
proof -
  from copy_st_run [OF assms] obtain h1 a1 where
    c: "copy_st h points = (h1, a1)" and f1: "free h \<le> free h1" and
    fr1: "\<forall>b < free h. objs h1 b = objs h b" and p1: "points_at h1 a1 pts" by blast
  note fl = first_len_points [OF p1]
  show ?thesis
  proof (cases "py_index pts 0")
    case (Inl e)
    then have "palettize_st h points layers nl zgap = Some (h1, Inl e)"
      using c fl by (simp add: palettize_st_def)
    moreover have "palettize pts layers nl zgap = Inl e" using Inl by (simp add: palettize_def)
    ultimately show ?thesis using f1 fr1 by simp
  next
    case (Inr p0)
    define factor :: real where "factor = (if length p0 > 3 then 2 else 1)"
    from scale_st_run [OF p1, of factor] obtain h2 r where
      s: "scale_st h1 a1 factor = Some (h2, r)" and f2: "free h1 \<le> free h2" and
      fr2: "\<forall>b < free h1. objs h2 b = objs h1 b" and
      res: "(case scale pts factor of
              Inl e \<Rightarrow> r = Inl e
            | Inr ps \<Rightarrow> (\<exists>a. r = Inr a \<and> free h1 \<le> a \<and> nums_at h2 a = Inr ps))"
      by blast
    have frame: "free h \<le> free h2" "\<forall>b < free h. objs h2 b = objs h b"
      using f1 f2 fr1 fr2 by auto
    have "palettize_st h points layers nl zgap = Some (h2, palettize pts layers nl zgap)"
    proof (cases "scale pts factor")
      case (Inl e)
      with res have "r = Inl e" by simp
      then have "palettize_st h points layers nl zgap = Some (h2, Inl e)"
        using c fl Inr s by (simp add: palettize_st_def factor_def)
      moreover have "palettize pts layers nl zgap = Inl e"
        using Inr Inl by (simp add: palettize_def factor_def Let_def)
      ultimately show ?thesis by simp
    next
      case sc: (Inr ps)
      with res obtain a where "r = Inr a" "nums_at h2 a = Inr ps" by auto
      then have "palettize_st h points layers nl zgap =
                 Some (h2, run_walk (radviz_uv (axes (length p0))) ps layers nl zgap)"
        using c fl Inr s by (simp add: palettize_st_def factor_def walk_st_def)
      moreover have "palettize pts layers nl zgap =
                     run_walk (radviz_uv (axes (length p0))) ps layers nl zgap"
        using Inr sc by (simp add: palettize_def factor_def Let_def)
      ultimately show ?thesis by simp
    qed
    with frame show ?thesis by blast
  qed
qed

lemma palettize_polar_st_run:
  assumes "points_at h points pts"
  shows "\<exists>h'. palettize_polar_st h points layers nl zgap =
                Some (h', palettize_polar pts layers nl zgap) \<and>
           free h \<le> free h' \<and> (\<forall>b < free h. objs h' b = objs h b)"
proof -
  note fl = first_len_points [OF assms]
  show ?thesis
  proof (cases "py_index pts 0")
    case (Inl e)
    then have "palettize_polar_st h points layers nl zgap = Some (h, Inl e)"
      using fl by (simp add: palettize_polar_st_def)
    moreover have "palettize_polar pts layers nl zgap = Inl e"
      using Inl by (simp add: palettize_polar_def)
    ultimately show ?thesis by simp
  next
    case (Inr p0)
    define factor :: real where "factor = (if length p0 > 3 then 3 else 2)"
    from copy_st_run [OF assms] obtain h1 a1 where
      c: "copy_st h points = (h1, a1)" and f1: "free h \<le> free h1" and
      fr1: "\<forall>b < free h. objs h1 b = objs h b" and p1: "points_at h1 a1 pts" by blast
    from reverse_normalize_st_run [OF p1] obtain h2 a2 where
      rn: "reverse_normalize_st h1 a1 = Some (h2, Inr a2)" and f2: "free h1 \<le> free h2" and
      fr2: "\<forall>b < free h1. objs h2 b = objs h1 b" and
      p2: "points_at h2 a2 (reverse_normalize pts)" by blast
    from scale_st_run [OF p2, of factor] obtain h3 r where
      s: "scale_st h2 a2 factor = Some (h3, r)" and f3: "free h2 \<le> free h3" and
      fr3: "\<forall>b < free h2. objs h3 b = objs h2 b" and
      res: "(case scale (reverse_normalize pts) factor of
              Inl e \<Rightarrow> r = Inl e
            | Inr ps \<Rightarrow> (\<exists>a. r = Inr a \<and> free h2 \<le> a \<and> nums_at h3 a = Inr ps))"
      by blast
    have frame: "free h \<le> free h3" "\<forall>b < free h. objs h3 b = objs h b"
      using f1 f2 f3 fr1 fr2 fr3 by auto
    have "palettize_polar_st h points layers nl zgap =
          Some (h3, palettize_polar pts layers nl zgap)"
    proof (cases "scale (reverse_normalize pts) factor")
      case (Inl e)
      with res have "r = Inl e" by simp
      then have "palettize_polar_st h points layers nl zgap = Some (h3, Inl e)"
        using c fl Inr rn s by (simp add: palettize_polar_st_def factor_def)
      moreover have "palettize_polar pts layers nl zgap = Inl e"
        using Inr Inl by (simp add: palettize_polar_def factor_def Let_def)
      ultimately show ?thesis by simp
    next
      case sc: (Inr ps)
      with res obtain a where "r = Inr a" "nums_at h3 a = Inr ps" by auto
      then have "palettize_polar_st h points layers nl zgap =
                 Some (h3, run_walk (polar_uv (axes (length p0))) ps layers nl zgap)"
        using c fl Inr rn s by (simp add: palettize_polar_st_def factor_def walk_st_def)
      moreover have "palettize_polar pts layers nl zgap =
                     run_walk (polar_uv (axes (length p0))) ps layers nl zgap"
        using Inr sc by (simp add: palettize_polar_def factor_def Let_def)
      ultimately show ?thesis by simp
    qed
    with frame show ?thesis by blast
  qed
qed

lemma palettize_logistic_st_run:
  assumes "points_at h points pts"
  shows "\<exists>h'. palettize_logistic_st h points layers nl zgap =
                Some (h', palettize_logistic pts layers nl zgap) \<and>
           free h \<le> free h' \<and> (\<forall>b < free h. objs h' b = objs h b)"
proof -
  from copy_st_run [OF assms] obtain h1 a1 where
    c: "copy_st h points = (h1, a1)" and f1: "free h \<le> free h1" and
    fr1: "\<forall>b < free h. objs h1 b = objs h b" and p1: "points_at h1 a1 pts" by blast
  from logistic_map_st_run [OF p1, of 15] obtain h2 a2 where
    lm: "logistic_map_st h1 a1 15 = Some (h2, Inr a2)" and f2: "free h1 \<le> free h2" and
    fr2: "\<forall>b < free h1. objs h2 b = objs h1 b" and
    p2: "points_at h2 a2 (logistic_map pts 15)" by blast
  have frame: "free h \<le> free h2" "\<forall>b < free h. objs h2 b = objs h b"
    using f1 f2 fr1 fr2 by auto
  note fl = first_len_points [OF p2]
  note na = nums_at_points [OF p2]
  have ix: "py_index (map (map PyFloat) (logistic_map pts 15)) 0 =
            map_sum id (map PyFloat) (py_index (logistic_map pts 15) 0)"
    by (rule py_index_map)
  have "palettize_logistic_st h points layers nl zgap =
        Some (h2, palettize_logistic pts layers nl zgap)"
  proof (cases "py_index (logistic_map pts 15) 0")
    case (Inl e)
    then show ?thesis
      using c lm fl ix by (simp add: palettize_logistic_st_def palettize_logistic_def)
  next
    case (Inr p0)
    then show ?thesis
      using c lm fl ix na
      by (simp add: palettize_logistic_st_def palettize_logistic_def walk_st_def Let_def)
  qed
  with frame show ?thesis by blast
qed

text \<open>
  C9. When the caller's \<open>points\<close> is a point collection in the store (a list of lists of
  floats), reverse_normalize, scale and logistic_map return the address of a list that did
  not exist before and leave every object that existed unchanged, and so do the three
  palettize functions, which return what the value-level functions compute on the value
  of the collection: after each call the outer list and every inner list of the caller
  are what they were.
\<close>

theorem caller_points_unchanged:
  assumes "points_at h points pts"
  shows "(\<exists>h' a. reverse_normalize_st h points = Some (h', Inr a) \<and> free h \<le> a \<and>
            (\<forall>b < free h. objs h' b = objs h b) \<and> points_at h' points pts \<and>
            points_at h' a (reverse_normalize pts)) \<and>
         (\<exists>h' r. scale_st h points factor = Some (h', r) \<and>
            (\<forall>b < free h. objs h' b = objs h b) \<and> points_at h' points pts \<and>
            (case scale pts factor of
               Inl e \<Rightarrow> r = Inl e
             | Inr ps \<Rightarrow> (\<exists>a. r = Inr a \<and> free h \<le> a \<and> nums_at h' a = Inr ps))) \<and>
         (\<exists>h' a. logistic_map_st h points A = Some (h', Inr a) \<and> free h \<le> a \<and>
            (\<forall>b < free h. objs h' b = objs h b) \<and> points_at h' points pts \<and>
            points_at h' a (logistic_map pts A)) \<and>
         (\<exists>h'. palettize_st h points layers n_layers zgap =
                  Some (h', palettize pts layers n_layers zgap) \<and>
            (\<forall>b < free h. objs h' b = objs h b) \<and> points_at h' points pts) \<and>
         (\<exists>h'. palettize_polar_st h points layers n_layers zgap =
                  Some (h', palettize_polar pts layers n_layers zgap) \<and>
            (\<forall>b < free h. objs h' b = objs h b) \<and> points_at h' points pts) \<and>
         (\<exists>h'. palettize_logistic_st h points layers n_layers zgap =
                  Some (h', palettize_logistic pts layers n_layers zgap) \<and>
            (\<forall>b < free h. objs h' b = objs h b) \<and> points_at h' points pts)"
proof (intro conjI)
  show "\<exists>h' a. reverse_normalize_st h points = Some (h', Inr a) \<and> free h \<le> a \<and>
            (\<forall>b < free h. objs h' b = objs h b) \<and> points_at h' points pts \<and>
            points_at h' a (reverse_normalize pts)"
    using reverse_normalize_st_run [OF assms] points_at_extend [OF assms] by blast
  show "\<exists>h' r. scale_st h points factor = Some (h', r) \<and>
            (\<forall>b < free h. objs h' b = objs h b) \<and> points_at h' points pts \<and>
            (case scale pts factor of
               Inl e \<Rightarrow> r = Inl e
             | Inr ps \<Rightarrow> (\<exists>a. r = Inr a \<and> free h \<le> a \<and> nums_at h' a = Inr ps))"
    using scale_st_run [OF assms, of factor] points_at_extend [OF assms] by blast
  show "\<exists>h' a. logistic_map_st h points A = Some (h', Inr a) \<and> free h \<le> a \<and>
            (\<forall>b < free h. objs h' b = objs h b) \<and> points_at h' points pts \<and>
            points_at h' a (logistic_map pts A)"
    using logistic_map_st_run [OF assms, of A] points_at_extend [OF assms] by blast
  show "\<exists>h'. palettize_st h points layers n_layers zgap =
                  Some (h', palettize pts layers n_layers zgap) \<and>
            (\<forall>b < free h. objs h' b = objs h b) \<and> points_at h' points pts"
    using palettize_st_run [OF assms, of layers n_layers zgap] points_at_extend [OF assms]
    by blast
  show "\<exists>h'. palettize_polar_st h points layers n_layers zgap =
                  Some (h', palettize_polar pts layers n_layers zgap) \<and>
            (\<forall>b < free h. objs h' b = objs h b) \<and> points_at h' points pts"
    using palettize_polar_st_run [OF assms, of layers n_layers zgap]
      points_at_extend [OF assms] by blast
  show "\<exists>h'. palettize_logistic_st h points layers n_layers zgap =
                  Some (h', palettize_logistic pts layers n_layers zgap) \<and>
            (\<forall>b < free h. objs h' b = objs h b) \<and> points_at h' points pts"
    using palettize_logistic_st_run [OF assms, of layers n_layers zgap]
      points_at_extend [OF assms] by blast
qed

theorem caller_points_unchanged_witness:
  "(\<exists>h' a. reverse_normalize_st
             \<lparr>objs = (\<lambda>a. Refs [])(0 := Refs [1], 1 := Floats [1, 0]), free = 2\<rparr> 0 =
               Some (h', Inr a) \<and>
           objs h' 0 = Refs [1] \<and> objs h' 1 = Floats [1, 0]) \<and>
   (\<exists>h'. palettize_st
             \<lparr>objs = (\<lambda>a. Refs [])(0 := Refs [1], 1 := Floats [1, 0]), free = 2\<rparr> 0
             [[0]] 0 1 = Some (h', palettize [[1, 0]] [[0]] 0 1) \<and>
           objs h' 0 = Refs [1] \<and> objs h' 1 = Floats [1, 0]) \<and>
   (\<exists>h'. palettize_polar_st
             \<lparr>objs = (\<lambda>a. Refs [])(0 := Refs [1], 1 := Floats [1, 0]), free = 2\<rparr> 0
             [[0]] 0 1 = Some (h', palettize_polar [[1, 0]] [[0]] 0 1) \<and>
           objs h' 0 = Refs [1] \<and> objs h' 1 = Floats [1, 0]) \<and>
   (\<exists>h'. palettize_logistic_st
             \<lparr>objs = (\<lambda>a. Refs [])(0 := Refs [1], 1 := Floats [1, 0]), free = 2\<rparr> 0
             [[0]] 0 1 = Some (h', palettize_logistic [[1, 0]] [[0]] 0 1) \<and>
           objs h' 0 = Refs [1] \<and> objs h' 1 = Floats [1, 0])"
proof -
  define h where "h = \<lparr>objs = (\<lambda>a. Refs [])(0 := Refs [1], 1 := Floats [1, 0]), free = 2\<rparr>"
  have p: "points_at h 0 [[1, 0]]" by (simp add: points_at_def h_def)
  have o: "objs h' 0 = Refs [1] \<and> objs h' 1 = Floats [1, 0]"
    if "\<forall>b < free h. objs h' b = objs h b" for h'
    using that by (simp add: h_def)
  note w = caller_points_unchanged [OF p, of 1 15 "[[0]]" 0 1]
  from w obtain h1 a where
    "reverse_normalize_st h 0 = Some (h1, Inr a)" "\<forall>b < free h. objs h1 b = objs h b"
    by blast
  then have 1: "\<exists>h' a. reverse_normalize_st h 0 = Some (h', Inr a) \<and>
                  objs h' 0 = Refs [1] \<and> objs h' 1 = Floats [1, 0]"
    using o by blast
  from w obtain h2 where
    "palettize_st h 0 [[0]] 0 1 = Some (h2, palettize [[1, 0]] [[0]] 0 1)"
    "\<forall>b < free h. objs h2 b = objs h b" by blast
  then have 2: "\<exists>h'. palettize_st h 0 [[0]] 0 1 = Some (h', palettize [[1, 0]] [[0]] 0 1) \<and>
                  objs h' 0 = Refs [1] \<and> objs h' 1 = Floats [1, 0]"
    using o by blast
  from w obtain h3 where
    "palettize_polar_st h 0 [[0]] 0 1 = Some (h3, palettize_polar [[1, 0]] [[0]] 0 1)"
    "\<forall>b < free h. objs h3 b = objs h b" by blast
  then have 3: "\<exists>h'. palettize_polar_st h 0 [[0]] 0 1 =
                       Some (h', palettize_polar [[1, 0]] [[0]] 0 1) \<and>
                  objs h' 0 = Refs [1] \<and> objs h' 1 = Floats [1, 0]"
    using o by blast
  from w obtain h4 where
    "palettize_logistic_st h 0 [[0]] 0 1 = Some (h4, palettize_logistic [[1, 0]] [[0]] 0 1)"
    "\<forall>b < free h. objs h4 b = objs h b" by blast
  then have 4: "\<exists>h'. palettize_logistic_st h 0 [[0]] 0 1 =
                       Some (h', palettize_logistic [[1, 0]] [[0]] 0 1) \<and>
                  objs h' 0 = Refs [1] \<and> objs h' 1 = Floats [1, 0]"
    using o by blast
  from 1 2 3 4 show ?thesis unfolding h_def by blast
qed

section \<open>Rounding to doubles\<close>

lemma round_even_close: "\<bar>of_int (round_even r) - r\<bar> \<le> 1 / 2"
  unfolding round_even_def Let_def by (auto; linarith)

lemma round_even_nonneg: "0 \<le> r \<Longrightarrow> 0 \<le> round_even r"
  unfolding round_even_def Let_def by (auto; linarith)

lemma round_even_below_half:
  assumes "of_int n \<le> r" and "r < of_int n + 1 / 2"
  shows "round_even r = n"
proof -
  have "\<lfloor>r\<rfloor> = n" using assms by (intro floor_unique) simp_all
  then show ?thesis using assms by (simp add: round_even_def Let_def)
qed

lemma round_double_close: "\<bar>round_double x - x\<bar> \<le> \<bar>x\<bar> / 2 ^ 53 + 1 / 2 ^ 1075"
proof (cases "x = 0")
  case True
  then show ?thesis by (simp add: round_double_def)
next
  case False
  define e where "e = max \<lfloor>log 2 \<bar>x\<bar>\<rfloor> (- 1022)"
  define u :: real where "u = 2 powr (of_int e - 52)"
  have u: "0 < u" by (simp add: u_def)
  have rd: "round_double x = u * of_int (round_even (x / u))"
    using False by (simp add: round_double_def Let_def e_def u_def)
  have "round_double x - x = u * (of_int (round_even (x / u)) - x / u)"
    using u by (simp add: rd right_diff_distrib)
  then have "\<bar>round_double x - x\<bar> = u * \<bar>of_int (round_even (x / u)) - x / u\<bar>"
    using u by (simp add: abs_mult)
  also have "\<dots> \<le> u * (1 / 2)"
    using round_even_close [of "x / u"] u by (intro mult_left_mono) simp_all
  finally have half: "\<bar>round_double x - x\<bar> \<le> u / 2" by simp
  have "u / 2 \<le> \<bar>x\<bar> / 2 ^ 53 + 1 / 2 ^ 1075"
  proof (cases "- 1022 \<le> \<lfloor>log 2 \<bar>x\<bar>\<rfloor>")
    case True
    then have e: "e = \<lfloor>log 2 \<bar>x\<bar>\<rfloor>" by (simp add: e_def)
    have "2 powr of_int e \<le> 2 powr log 2 \<bar>x\<bar>" unfolding e by (intro powr_mono) simp_all
    also have "\<dots> = \<bar>x\<bar>" using False by simp
    finally have le: "2 powr of_int e \<le> \<bar>x\<bar>" .
    have "u = 2 powr of_int e / 2 ^ 52"
      by (simp add: u_def powr_diff)
    then have "u / 2 = 2 powr of_int e / 2 ^ 53" by simp
    also have "\<dots> \<le> \<bar>x\<bar> / 2 ^ 53" using le by (simp add: divide_right_mono)
    finally show ?thesis by (simp add: add_increasing2)
  next
    case False
    then have e: "e = - 1022" by (simp add: e_def)
    have "u = 2 powr (- 1074)" by (simp add: u_def e)
    also have "\<dots> = 1 / 2 ^ 1074"
      by (simp add: powr_minus_divide)
    finally have "u / 2 = 1 / 2 ^ 1075" by simp
    then show ?thesis by simp
  qed
  with half show ?thesis by linarith
qed

lemma round_double_nonneg: "0 \<le> x \<Longrightarrow> 0 \<le> round_double x"
  by (auto simp: round_double_def Let_def intro!: mult_nonneg_nonneg round_even_nonneg)

lemma round_double_one:
  assumes "1 \<le> x" and "x < 1 + 1 / 2 ^ 53"
  shows "round_double x = 1"
proof -
  have x2: "x < 2" using assms(2) by (rule less_trans) simp
  have "\<lfloor>log 2 \<bar>x\<bar>\<rfloor> = 0"
    using assms(1) x2 by (simp add: floor_log_eq_powr_iff)
  then have rd: "round_double x = 2 powr (- 52) * of_int (round_even (x / 2 powr (- 52)))"
    using assms(1) by (simp add: round_double_def Let_def)
  have p: "(2::real) powr (- 52) = 1 / 2 ^ 52"
    by (simp add: powr_minus_divide)
  have lo: "2 ^ 52 \<le> x * 2 ^ 52" using assms(1) by simp
  have hi: "x * 2 ^ 52 < 2 ^ 52 + 1 / 2" using assms(2) by (simp add: field_simps)
  have "round_even (x * 2 ^ 52) = 2 ^ 52"
    by (rule round_even_below_half) (use lo hi in simp_all)
  then show ?thesis by (simp add: rd p)
qed

lemma round_double_crude:
  assumes "\<bar>x\<bar> \<le> 10000"
  shows "\<bar>round_double x - x\<bar> \<le> 1 / 1000"
proof -
  have "\<bar>x\<bar> / 2 ^ 53 \<le> 10000 / 2 ^ 53" using assms by (simp add: divide_right_mono)
  moreover have "(10000::real) / 2 ^ 53 + 1 / 2 ^ 1075 \<le> 1 / 1000" by simp
  ultimately show ?thesis using round_double_close [of x] by linarith
qed

lemma fin_crude:
  assumes "\<bar>x\<bar> \<le> 10000"
  shows "fin x = Fin (round_double x)"
proof -
  have "\<bar>round_double x\<bar> \<le> 10001" using round_double_crude [OF assms] assms by linarith
  moreover have "(10001::real) < 2 ^ 1024" by simp
  ultimately show ?thesis by (auto simp: fin_def Let_def)
qed

lemma fadd_Fin:
  assumes "\<bar>a + b\<bar> \<le> 10000"
  shows "fadd (Fin a) (Fin b) = Fin (round_double (a + b))"
  using fin_crude [OF assms] by simp

lemma fsub_Fin:
  assumes "\<bar>a - b\<bar> \<le> 10000"
  shows "fsub (Fin a) (Fin b) = Fin (round_double (a - b))"
  using fin_crude [of "a - b"] assms by (simp add: fsub_def)

lemma fmul_Fin:
  assumes "\<bar>a * b\<bar> \<le> 10000"
  shows "fmul (Fin a) (Fin b) = Fin (round_double (a * b))"
  using fin_crude [OF assms] by simp

lemma fdiv_Fin:
  assumes "b \<noteq> 0" and "\<bar>a / b\<bar> \<le> 10000"
  shows "fdiv (Fin a) (Fin b) = Inr (Fin (round_double (a / b)))"
  using fin_crude [OF assms(2)] assms(1) by simp

lemma fexp_Fin:
  assumes "exp x \<le> 10000"
  shows "fexp (Fin x) = Inr (Fin (round_double (exp x)))"
proof -
  have "\<bar>exp x\<bar> \<le> 10000" using assms by simp
  from round_double_crude [OF this] assms have "round_double (exp x) \<le> 10001" by linarith
  moreover have "(10001::real) < 2 ^ 1024" by simp
  ultimately show ?thesis by simp
qed

lemma exp_one_ge: "(271 / 100 :: real) \<le> exp 1"
proof -
  have "(145 / 128 :: real) \<le> exp (1 / 8)"
    using exp_lower_Taylor_quadratic [of "1 / 8 :: real"] by (simp add: power2_eq_square)
  then have "(145 / 128 :: real) ^ 8 \<le> exp (1 / 8) ^ 8"
    by (intro power_mono) simp_all
  moreover have "exp (1 / 8 :: real) ^ 8 = exp 1"
    using exp_of_nat_mult [of 8 "1 / 8 :: real", symmetric] by simp
  moreover have "(271 / 100 :: real) \<le> (145 / 128) ^ 8" by (simp add: power_divide)
  ultimately show ?thesis by linarith
qed

lemma exp_le_8: assumes "x \<le> (8::real)" shows "exp x \<le> 6561"
proof -
  have "exp x \<le> exp 8" using assms by simp
  also have "exp (8::real) = exp 1 ^ 8" using exp_of_nat_mult [of 8 "1::real"] by simp
  also have "\<dots> \<le> 3 ^ 8" by (intro power_mono exp_le) simp
  finally show ?thesis by simp
qed

lemma exp_tiny: assumes "x \<le> - (37::real)" shows "exp x \<le> 10 / (11 * 2 ^ 53)"
proof -
  have "exp 1 ^ 37 = exp (37::real)" using exp_of_nat_mult [of 37 "1::real"] by simp
  moreover have "(271 / 100 :: real) ^ 37 \<le> exp 1 ^ 37"
    by (intro power_mono exp_one_ge) simp
  moreover have "(11 * 2 ^ 53 / 10 :: real) \<le> (271 / 100) ^ 37" by (simp add: power_divide)
  ultimately have big: "(11 * 2 ^ 53 / 10 :: real) \<le> exp 37" by linarith
  have "exp x \<le> exp (- 37)" using assms by simp
  also have "\<dots> = 1 / exp (37::real)" by (simp add: exp_minus inverse_eq_divide)
  also have "\<dots> \<le> 1 / (11 * 2 ^ 53 / 10)"
    using big by (intro divide_left_mono) simp_all
  finally show ?thesis by simp
qed

text \<open>The values of \<open>p\<close> and \<open>q\<close> for \<open>A = 15\<close>, up to rounding.\<close>

lemma logistic_pq_15:
  "\<exists>p q. logistic_pq 15 = Inr (Fin p, Fin q) \<and> 0 \<le> p \<and> p \<le> 11 / 100 \<and>
         88 / 100 \<le> q \<and> q \<le> 101 / 100"
proof -
  define h where "h = round_double (15 / 2)"
  have h: "\<bar>h - 15 / 2\<bar> \<le> 1 / 1000" unfolding h_def by (rule round_double_crude) simp
  have dh: "fdiv (Fin 15) (Fin 2) = Inr (Fin h)" unfolding h_def by (rule fdiv_Fin) simp_all
  define E where "E = round_double (exp h)"
  have eh: "84 / 10 \<le> exp h" "exp h \<le> 6561"
    using exp_ge_add_one_self [of h] exp_le_8 [of h] h by linarith+
  have fe: "fexp (Fin h) = Inr (Fin E)" unfolding E_def by (rule fexp_Fin) (use eh in linarith)
  have E: "83 / 10 \<le> E" "E \<le> 6562"
    using round_double_crude [of "exp h"] eh unfolding E_def by linarith+
  define s where "s = round_double (1 + E)"
  have fs: "fadd (Fin 1) (Fin E) = Fin s" unfolding s_def by (rule fadd_Fin) (use E in linarith)
  have s: "92 / 10 \<le> s" "s \<le> 6564"
    using round_double_crude [of "1 + E"] E unfolding s_def by linarith+
  define p where "p = round_double (1 / s)"
  have rs: "0 \<le> 1 / s" "1 / s \<le> 10 / 92"
    using s by (simp_all add: field_simps)
  have fp: "fdiv (Fin 1) (Fin s) = Inr (Fin p)"
    unfolding p_def by (rule fdiv_Fin) (use s rs in simp_all)
  have p: "0 \<le> p" "p \<le> 11 / 100"
    using round_double_nonneg [OF rs(1)] round_double_crude [of "1 / s"] rs
    unfolding p_def by linarith+
  have rp: "recip_one_plus_exp (Fin h) = Inr (Fin p)"
    by (simp only: recip_one_plus_exp_def fe fs fp sum.case)
  define h' where "h' = round_double (- 15 / 2)"
  have h': "\<bar>h' + 15 / 2\<bar> \<le> 1 / 1000"
    using round_double_crude [of "- 15 / 2"] unfolding h'_def by simp
  have dh': "fdiv (fneg (Fin 15)) (Fin 2) = Inr (Fin h')"
    using fdiv_Fin [of 2 "- 15"] unfolding h'_def by simp
  define E' where "E' = round_double (exp h')"
  have "84 / 10 \<le> exp (- h')" using exp_ge_add_one_self [of "- h'"] h' by linarith
  then have "exp h' \<le> 10 / 84"
    by (simp add: exp_minus inverse_eq_divide field_simps)
  then have eh': "0 \<le> exp h'" "exp h' \<le> 12 / 100" by simp_all
  have fe': "fexp (Fin h') = Inr (Fin E')"
    unfolding E'_def by (rule fexp_Fin) (use eh' in linarith)
  have E': "0 \<le> E'" "E' \<le> 13 / 100"
    using round_double_nonneg [OF eh'(1)] round_double_crude [of "exp h'"] eh'
    unfolding E'_def by linarith+
  define s' where "s' = round_double (1 + E')"
  have fs': "fadd (Fin 1) (Fin E') = Fin s'"
    unfolding s'_def by (rule fadd_Fin) (use E' in linarith)
  have s': "999 / 1000 \<le> s'" "s' \<le> 1131 / 1000"
    using round_double_crude [of "1 + E'"] E' unfolding s'_def by linarith+
  define q where "q = round_double (1 / s')"
  have rs': "1000 / 1131 \<le> 1 / s'" "1 / s' \<le> 1000 / 999"
    using s' by (simp_all add: field_simps)
  have fq: "fdiv (Fin 1) (Fin s') = Inr (Fin q)"
    unfolding q_def by (rule fdiv_Fin) (use s' rs' in simp_all)
  have q: "88 / 100 \<le> q" "q \<le> 101 / 100"
    using round_double_crude [of "1 / s'"] rs' unfolding q_def by linarith+
  have rq: "recip_one_plus_exp (Fin h') = Inr (Fin q)"
    by (simp only: recip_one_plus_exp_def fe' fs' fq sum.case)
  have "logistic_pq 15 = Inr (Fin p, Fin q)"
    by (simp only: logistic_pq_def dh rp dh' rq sum.case)
  with p q show ?thesis by blast
qed

text \<open>
  From \<open>v = 3\<close> on, \<open>exp (- 15 (v - 0.5))\<close> is below half the distance from 1 to the next
  double, so \<open>1 + exp \<dots>\<close> is 1 and the element no longer depends on \<open>v\<close>.
\<close>

lemma logistic_remap_float_saturated:
  assumes "3 \<le> v" and "v \<le> 600"
    and "0 \<le> p" and "p \<le> 11 / 100" and "88 / 100 \<le> q" and "q \<le> 101 / 100"
  shows "logistic_remap_float 15 (Fin p) (Fin q) v =
           Inr (Fin (round_double (round_double (1 - p) / round_double (q - p))))"
proof -
  define a where "a = round_double (v - 1 / 2)"
  have fa: "fsub (Fin v) (Fin (1 / 2)) = Fin a"
    unfolding a_def by (rule fsub_Fin) (use assms(1,2) in simp)
  have a: "249 / 100 \<le> a" "a \<le> 600"
    using round_double_crude [of "v - 1 / 2"] assms(1,2) unfolding a_def by (simp; linarith)+
  define t where "t = round_double (- 15 * a)"
  have ab: "\<bar>- 15 * a\<bar> \<le> 10000" using a by simp
  have ft: "fmul (fneg (Fin 15)) (Fin a) = Fin t"
    using fmul_Fin [OF ab] unfolding t_def by simp
  have t: "t \<le> - 37"
    using round_double_crude [OF ab] a unfolding t_def by linarith
  define y where "y = round_double (exp t)"
  have et: "0 \<le> exp t" "exp t \<le> 10 / (11 * 2 ^ 53)"
    using exp_tiny [OF t] by simp_all
  have fy: "fexp (Fin t) = Inr (Fin y)"
    unfolding y_def by (rule fexp_Fin) (use et in simp)
  have y0: "0 \<le> y" unfolding y_def by (rule round_double_nonneg) simp
  have "y \<le> exp t + exp t / 2 ^ 53 + 1 / 2 ^ 1075"
    using round_double_close [of "exp t"] unfolding y_def by simp
  also have "\<dots> \<le> 10 / (11 * 2 ^ 53) + (10 / (11 * 2 ^ 53)) / 2 ^ 53 + 1 / 2 ^ 1075"
    using et(2) by (intro add_mono divide_right_mono) simp_all
  also have "\<dots> < 1 / 2 ^ 53" by simp
  finally have y1: "y < 1 / 2 ^ 53" .
  have one: "round_double (1 + y) = 1" by (rule round_double_one) (use y0 y1 in simp_all)
  have f1: "fadd (Fin 1) (Fin y) = Fin 1"
    using fadd_Fin [of 1 y] y0 y1 one by simp
  have r1: "round_double 1 = 1" by (rule round_double_one) simp_all
  have d1: "fdiv (Fin 1) (Fin 1) = Inr (Fin 1)" using fdiv_Fin [of 1 1] r1 by simp
  have s: "recip_one_plus_exp (fmul (fneg (Fin 15)) (fsub (Fin v) (Fin (1 / 2)))) = Inr (Fin 1)"
    by (simp only: recip_one_plus_exp_def fa ft fy f1 d1 sum.case)
  define n where "n = round_double (1 - p)"
  define d where "d = round_double (q - p)"
  have fn: "fsub (Fin 1) (Fin p) = Fin n"
    unfolding n_def by (rule fsub_Fin) (use assms(3,4) in simp)
  have fd: "fsub (Fin q) (Fin p) = Fin d"
    unfolding d_def by (rule fsub_Fin) (use assms(3-6) in simp)
  have n: "0 \<le> n" "n \<le> 2"
    using round_double_crude [of "1 - p"] assms(3,4) unfolding n_def by (simp; linarith)+
  have d: "76 / 100 \<le> d"
    using round_double_crude [of "q - p"] assms(3-6) unfolding d_def by (simp; linarith)
  have nd: "\<bar>n / d\<bar> \<le> 10000"
  proof -
    have "n / d \<le> 2 / (76 / 100)" using n d by (intro frac_le) simp_all
    also have "\<dots> \<le> 10000" by simp
    finally have "n / d \<le> 10000" .
    moreover have "0 \<le> n / d" using n d by simp
    ultimately show ?thesis by (simp only: abs_of_nonneg)
  qed
  have "fdiv (Fin n) (Fin d) = Inr (Fin (round_double (n / d)))"
    by (rule fdiv_Fin) (use d nd in simp_all)
  then show ?thesis by (simp only: logistic_remap_float_def s fn fd n_def d_def sum.case)
qed

text \<open>
  C6 fails on the doubles the code computes with: \<open>3.0 < 4.0\<close>, and \<open>logistic_map\<close>
  returns the same value for both.
\<close>

theorem logistic_map_float_collision:
  "(3::real) < 4 \<and> (\<exists>r. logistic_map_float [[3, 4]] 15 = Inr [[Fin r, Fin r]])"
proof -
  from logistic_pq_15 obtain p q where
    pq: "logistic_pq 15 = Inr (Fin p, Fin q)" and
    b: "0 \<le> p" "p \<le> 11 / 100" "88 / 100 \<le> q" "q \<le> 101 / 100" by blast
  define r where "r = round_double (round_double (1 - p) / round_double (q - p))"
  have "logistic_remap_float 15 (Fin p) (Fin q) 3 = Inr (Fin r)"
    unfolding r_def by (rule logistic_remap_float_saturated [OF _ _ b]) simp_all
  moreover have "logistic_remap_float 15 (Fin p) (Fin q) 4 = Inr (Fin r)"
    unfolding r_def by (rule logistic_remap_float_saturated [OF _ _ b]) simp_all
  ultimately have "logistic_map_float [[3, 4]] 15 = Inr [[Fin r, Fin r]]"
    by (simp add: logistic_map_float_def pq)
  then show ?thesis by auto
qed

end
